theory Spec2Isabelle
  imports Main
begin

section \<open>Collaborators of the comment model\<close>

text \<open>
  \<^verbatim>\<open>comment.ts\<close> reads three members of a \<^verbatim>\<open>Reflection\<close>: its \<^verbatim>\<open>id\<close>, its \<^verbatim>\<open>kind\<close> and the
  string \<^verbatim>\<open>getFullName()\<close> returns. The class itself lives in \<^verbatim>\<open>../reflections\<close>; the record
  holds these three members and nothing else.
\<close>

record Reflection =
  refl_id :: int
  refl_kind :: int
  refl_fullName :: string

text \<open>
  A dereference of \<^verbatim>\<open>undefined\<close> or \<^verbatim>\<open>null\<close> raises \<^verbatim>\<open>TypeError\<close> in JavaScript; it is
  the only exception the modelled functions can raise on values of their declared types.
\<close>

datatype error = TypeError

text \<open>
  \<^verbatim>\<open>Number.prototype.toString\<close> on an integer: decimal digits, a leading minus sign for a
  negative number. Identifiers and media indices are integers of the safe range, where
  JavaScript prints no exponent.
\<close>

fun digits :: "nat \<Rightarrow> string" where
  "digits n =
     (if n < 10 then [''0123456789'' ! n]
      else digits (n div 10) @ [''0123456789'' ! (n mod 10)])"

declare digits.simps [simp del]

definition toString :: "int \<Rightarrow> string" where
  "toString n = (if n < 0 then CHR ''-'' # digits (nat (- n)) else digits (nat n))"

section \<open>Display parts\<close>

text \<open>
  \<^verbatim>\<open>InlineTagDisplayPart.target\<close> is \<^verbatim>\<open>Reflection | string | ReflectionSymbolId\<close>, optional.
  The class \<^verbatim>\<open>ReflectionSymbolId\<close> is imported from \<^verbatim>\<open>../reflections/ReflectionSymbolId\<close>;
  its values are the type parameter \<open>'sym\<close>.
\<close>

datatype 'sym InlineTagTarget =
    TargetReflection Reflection
  | TargetString string
  | TargetSymbolId 'sym

text \<open>
  \<^verbatim>\<open>RelativeLinkDisplayPart.target\<close> is declared \<^verbatim>\<open>Reflection | number\<close>. Deserialization
  stores \<^verbatim>\<open>null!\<close> there until the deferred callback runs, and the callback stores
  \<^verbatim>\<open>undefined\<close> when the reflection is not found: the field of the part is an option, and
  \<open>None\<close> is the unset target.
\<close>

datatype RelativeLinkTarget =
    LinkReflection Reflection
  | LinkMedia int

datatype 'sym CommentDisplayPart =
    Text (part_text: string)
  | Code (part_text: string)
  | InlineTag (part_tag: string) (part_text: string)
      (part_target: "'sym InlineTagTarget option") (tsLinkText: "string option")
  | RelativeLink (part_text: string) (link_target: "RelativeLinkTarget option")

text \<open>The assignment \<^verbatim>\<open>part.text = s\<close>.\<close>

fun set_text :: "string \<Rightarrow> 'sym CommentDisplayPart \<Rightarrow> 'sym CommentDisplayPart" where
  "set_text s (Text _) = Text s"
| "set_text s (Code _) = Code s"
| "set_text s (InlineTag tg _ target lt) = InlineTag tg s target lt"
| "set_text s (RelativeLink _ target) = RelativeLink s target"

subsection \<open>Array and string primitives\<close>

text \<open>\<^verbatim>\<open>Array.prototype.findIndex\<close> and \<^verbatim>\<open>String.prototype.indexOf\<close>: \<open>-1\<close> when nothing is found.\<close>

fun findIndex :: "('a \<Rightarrow> bool) \<Rightarrow> 'a list \<Rightarrow> int" where
  "findIndex P [] = - 1"
| "findIndex P (x # xs) =
     (if P x then 0 else (let i = findIndex P xs in if i = - 1 then - 1 else i + 1))"

definition newline :: char where
  "newline = CHR 0x0A"

definition includes_char :: "string \<Rightarrow> char \<Rightarrow> bool" where
  "includes_char s c = (c \<in> set s)"

definition indexOf :: "string \<Rightarrow> char \<Rightarrow> int" where
  "indexOf s c = findIndex (\<lambda>d. d = c) s"

text \<open>
  \<^verbatim>\<open>String.prototype.trim\<close> strips white space and line terminators from both ends. A
  \<open>char\<close> of the model is a code unit below 256. JavaScript's white space and line
  terminators among these are tab, line feed, vertical tab, form feed, carriage return,
  space and the no-break space U+00A0; the others (U+1680, U+2000 to U+200A, U+2028,
  U+2029, U+202F, U+205F, U+3000, U+FEFF) are code units that the strings of the model
  cannot hold.
\<close>

definition isWhiteSpace :: "char \<Rightarrow> bool" where
  "isWhiteSpace c =
     (c \<in> set [CHR 0x09, CHR 0x0A, CHR 0x0B, CHR 0x0C, CHR 0x0D, CHR 0x20, CHR 0xA0])"

definition trim :: "string \<Rightarrow> string" where
  "trim s = rev (dropWhile isWhiteSpace (rev (dropWhile isWhiteSpace s)))"

subsection \<open>combineDisplayParts\<close>

text \<open>
  One turn of the loop of \<^verbatim>\<open>Comment.combineDisplayParts\<close>: the string appended to
  \<^verbatim>\<open>result\<close>. A relative link whose target is unset is not a number, so the code calls
  \<^verbatim>\<open>getFullName\<close> on it, which raises.
\<close>

fun combinePart :: "'sym CommentDisplayPart \<Rightarrow> error + string" where
  "combinePart (Text t) = Inr t"
| "combinePart (Code t) = Inr t"
| "combinePart (InlineTag tg t _ _) = Inr (''{'' @ tg @ '' '' @ t @ ''}'')"
| "combinePart (RelativeLink _ (Some (LinkMedia n))) = Inr (''{rel:'' @ toString n @ ''}'')"
| "combinePart (RelativeLink _ (Some (LinkReflection r))) =
     Inr (''{rel:'' @ refl_fullName r @ ''}'')"
| "combinePart (RelativeLink _ None) = Inl TypeError"

fun combineDisplayParts :: "'sym CommentDisplayPart list \<Rightarrow> error + string" where
  "combineDisplayParts [] = Inr []"
| "combineDisplayParts (item # parts) =
     (case combinePart item of
        Inl e \<Rightarrow> Inl e
      | Inr s \<Rightarrow>
          (case combineDisplayParts parts of
             Inl e \<Rightarrow> Inl e
           | Inr result \<Rightarrow> Inr (s @ result)))"

subsection \<open>cloneDisplayParts\<close>

text \<open>\<^verbatim>\<open>parts.map((p) => ({ ...p }))\<close>: a new array of copies, field by field.\<close>

definition cloneDisplayParts :: "'sym CommentDisplayPart list \<Rightarrow> 'sym CommentDisplayPart list" where
  "cloneDisplayParts parts = map (\<lambda>p. p) parts"

subsection \<open>splitPartsToHeaderAndBody\<close>

record 'sym HeaderAndBody =
  header :: string
  body :: "'sym CommentDisplayPart list"

text \<open>The predicate handed to \<^verbatim>\<open>findIndex\<close>: only text and code parts are searched.\<close>

fun hasNewline :: "'sym CommentDisplayPart \<Rightarrow> bool" where
  "hasNewline (Text t) = includes_char t newline"
| "hasNewline (Code t) = includes_char t newline"
| "hasNewline (InlineTag _ _ _ _) = False"
| "hasNewline (RelativeLink _ _) = False"

fun is_code :: "'sym CommentDisplayPart \<Rightarrow> bool" where
  "is_code (Code _) = True"
| "is_code _ = False"

text \<open>
  The tail of the function, from \<^verbatim>\<open>if (!body[0].text)\<close> on. Reading \<^verbatim>\<open>body[0].text\<close> of an
  empty array raises.
\<close>

definition finishSplit ::
  "string \<Rightarrow> 'sym CommentDisplayPart list \<Rightarrow> error + 'sym HeaderAndBody" where
  "finishSplit hd_str bd =
     (case bd of
        [] \<Rightarrow> Inl TypeError
      | b # bs \<Rightarrow>
          Inr \<lparr>header = trim hd_str, body = (if part_text b = [] then bs else b # bs)\<rparr>)"

definition splitPartsToHeaderAndBody ::
  "'sym CommentDisplayPart list \<Rightarrow> error + 'sym HeaderAndBody" where
  "splitPartsToHeaderAndBody parts =
     (let index = findIndex hasNewline parts in
      if index = - 1 then
        (case combineDisplayParts parts of
           Inl e \<Rightarrow> Inl e
         | Inr h \<Rightarrow> Inr \<lparr>header = h, body = []\<rparr>)
      else
        let index = (if is_code (parts ! nat index) then index - 1 else index) in
        if index = - 1 then Inr \<lparr>header = [], body = cloneDisplayParts parts\<rparr>
        else
          (case combineDisplayParts (take (nat index) parts) of
             Inl e \<Rightarrow> Inl e
           | Inr h \<Rightarrow>
               let split = indexOf (part_text (parts ! nat index)) newline in
               if split = - 1 then
                 finishSplit (h @ part_text (parts ! nat index))
                   (cloneDisplayParts (drop (nat (index + 1)) parts))
               else
                 (case cloneDisplayParts (drop (nat index) parts) of
                    [] \<Rightarrow> Inl TypeError
                  | b # bs \<Rightarrow>
                      finishSplit (h @ take (nat split) (part_text (parts ! nat index)))
                        (set_text (drop (nat (split + 1)) (part_text b)) b # bs))))"

subsection \<open>displayPartsToMarkdown\<close>

text \<open>
  JavaScript truthiness of the values tested by the function: a target is falsy when it is
  absent or the empty string; \<^verbatim>\<open>url\<close> and \<^verbatim>\<open>kindClass\<close> are falsy when \<^verbatim>\<open>undefined\<close> or
  empty.
\<close>

fun targetTruthy :: "'sym InlineTagTarget option \<Rightarrow> bool" where
  "targetTruthy None = False"
| "targetTruthy (Some (TargetString s)) = (s \<noteq> [])"
| "targetTruthy (Some (TargetReflection _)) = True"
| "targetTruthy (Some (TargetSymbolId _)) = True"

fun truthy :: "string option \<Rightarrow> bool" where
  "truthy None = False"
| "truthy (Some s) = (s \<noteq> [])"

text \<open>
  \<^verbatim>\<open>url\<close> and \<^verbatim>\<open>kindClass\<close> as the function assigns them: a string target is the url, a
  reflection (the target with an \<^verbatim>\<open>id\<close>) is resolved by \<^verbatim>\<open>urlTo\<close> and classified by
  \<^verbatim>\<open>ReflectionKind.classString\<close>, a symbol identifier leaves both \<^verbatim>\<open>undefined\<close>.
  \<^verbatim>\<open>urlTo\<close> is the function's own parameter; \<^verbatim>\<open>classString\<close> belongs to
  \<^verbatim>\<open>../reflections/kind\<close> and is a parameter of the model.
\<close>

fun linkUrl :: "(Reflection \<Rightarrow> string) \<Rightarrow> 'sym InlineTagTarget \<Rightarrow> string option" where
  "linkUrl urlTo (TargetString s) = Some s"
| "linkUrl urlTo (TargetReflection r) = Some (urlTo r)"
| "linkUrl urlTo (TargetSymbolId _) = None"

fun linkKindClass :: "(int \<Rightarrow> string) \<Rightarrow> 'sym InlineTagTarget \<Rightarrow> string option" where
  "linkKindClass classString (TargetString s) = None"
| "linkKindClass classString (TargetReflection r) = Some (classString (refl_kind r))"
| "linkKindClass classString (TargetSymbolId _) = None"

definition dquote :: string where
  "dquote = [CHR 0x22]"

definition backtick :: string where
  "backtick = [CHR 0x60]"

text \<open>
  The template for the class attribute: a space, \<^verbatim>\<open>class=\<close> and the quoted \<^verbatim>\<open>kindClass\<close> when
  \<^verbatim>\<open>kindClass\<close> is truthy, the empty string otherwise.
\<close>

fun classAttribute :: "string option \<Rightarrow> string" where
  "classAttribute None = []"
| "classAttribute (Some k) = (if k \<noteq> [] then '' class='' @ dquote @ k @ dquote else [])"

text \<open>The branch \<^verbatim>\<open>if (part.target) { ... }\<close> of a link tag: the string it pushes.\<close>

definition renderLink ::
  "(Reflection \<Rightarrow> string) \<Rightarrow> (int \<Rightarrow> string) \<Rightarrow> bool \<Rightarrow> string \<Rightarrow> string \<Rightarrow>
   'sym InlineTagTarget \<Rightarrow> string" where
  "renderLink urlTo classString useHtml tg txt target =
     (let url = linkUrl urlTo target;
          kindClass = linkKindClass classString target in
      if useHtml then
        (let shown = (if tg = ''@linkcode'' then ''<code>'' @ txt @ ''</code>'' else txt) in
         case url of
           None \<Rightarrow> txt
         | Some u \<Rightarrow>
             if u \<noteq> [] then
               ''<a href='' @ dquote @ u @ dquote @ classAttribute kindClass @ ''>'' @
               shown @ ''</a>''
             else txt)
      else
        (let shown = (if tg = ''@linkcode'' then backtick @ txt @ backtick else txt) in
         case url of
           None \<Rightarrow> shown
         | Some u \<Rightarrow> if u \<noteq> [] then ''['' @ shown @ '']('' @ u @ '')'' else shown))"

text \<open>One turn of the loop: the strings pushed on \<^verbatim>\<open>result\<close> for one part.\<close>

fun markdownOfPart ::
  "(Reflection \<Rightarrow> string) \<Rightarrow> (int \<Rightarrow> string) \<Rightarrow> bool \<Rightarrow> 'sym CommentDisplayPart \<Rightarrow>
   string list" where
  "markdownOfPart urlTo classString useHtml (Text t) = [t]"
| "markdownOfPart urlTo classString useHtml (Code t) = [t]"
| "markdownOfPart urlTo classString useHtml (InlineTag tg txt target lt) =
     (if tg = ''@label'' \<or> tg = ''@inheritdoc'' then []
      else if tg = ''@link'' \<or> tg = ''@linkcode'' \<or> tg = ''@linkplain'' then
        (if targetTruthy target then
           (case target of
              Some tgt \<Rightarrow> [renderLink urlTo classString useHtml tg txt tgt]
            | None \<Rightarrow> [txt])
         else [txt])
      else [''{'' @ tg @ '' '' @ txt @ ''}''])"
| "markdownOfPart urlTo classString useHtml (RelativeLink _ _) = []"

text \<open>The loop over the parts, then \<^verbatim>\<open>result.join("")\<close>.\<close>

definition displayPartsToMarkdown ::
  "(Reflection \<Rightarrow> string) \<Rightarrow> (int \<Rightarrow> string) \<Rightarrow> bool \<Rightarrow> 'sym CommentDisplayPart list \<Rightarrow>
   string" where
  "displayPartsToMarkdown urlTo classString useHtml parts =
     concat (concat (map (markdownOfPart urlTo classString useHtml) parts))"

section \<open>Comments\<close>

record 'sym CommentTag =
  tag :: string
  name :: "string option"
  content :: "'sym CommentDisplayPart list"

text \<open>
  \<^verbatim>\<open>modifierTags\<close> is a JavaScript \<^verbatim>\<open>Set\<close>, which keeps its members in insertion order:
  the list of its members, each once.
\<close>

record 'sym Comment =
  summary :: "'sym CommentDisplayPart list"
  blockTags :: "'sym CommentTag list"
  modifierTags :: "string list"
  label :: "string option"
  sourcePath :: "string option"
  discoveryId :: "int option"

fun isLabelTag :: "'sym CommentDisplayPart \<Rightarrow> bool" where
  "isLabelTag (InlineTag tg _ _ _) = (tg = ''@label'')"
| "isLabelTag _ = False"

text \<open>\<^verbatim>\<open>comment.summary.splice(index, 1)\<close> removes the part at \<^verbatim>\<open>index\<close>.\<close>

definition extractLabelTag :: "'sym Comment \<Rightarrow> 'sym Comment" where
  "extractLabelTag comment =
     (let index = findIndex isLabelTag (summary comment) in
      if index \<noteq> - 1 then
        comment\<lparr>label := Some (part_text (summary comment ! nat index)),
                summary := take (nat index) (summary comment) @
                           drop (nat index + 1) (summary comment)\<rparr>
      else comment)"

text \<open>The constructor: the three fields, then \<^verbatim>\<open>extractLabelTag(this)\<close>.\<close>

definition Comment_new ::
  "'sym CommentDisplayPart list \<Rightarrow> 'sym CommentTag list \<Rightarrow> string list \<Rightarrow> 'sym Comment" where
  "Comment_new summary0 blockTags0 modifierTags0 =
     extractLabelTag
       \<lparr>summary = summary0, blockTags = blockTags0, modifierTags = modifierTags0,
        label = None, sourcePath = None, discoveryId = None\<rparr>"

section \<open>Serialization\<close>

text \<open>
  The wire shapes of \<^verbatim>\<open>JSONOutput\<close> that \<^verbatim>\<open>comment.ts\<close> writes and reads. The target of an
  inline tag is a number, a string or the payload of a symbol identifier (type parameter
  \<open>'p\<close>); the target of a relative link is \<^verbatim>\<open>{media: n}\<close> or \<^verbatim>\<open>{reflection: id}\<close>.
\<close>

datatype 'p JTarget =
    JNumber int
  | JString string
  | JSymbolId 'p

datatype JLinkTarget =
    JMedia int
  | JReflection int

datatype 'p JDisplayPart =
    JText string
  | JCode string
  | JInlineTag string string "'p JTarget option" "string option"
  | JRelativeLink string JLinkTarget

record 'p JCommentTag =
  j_tag :: string
  j_name :: "string option"
  j_content :: "'p JDisplayPart list"

record 'p JComment =
  j_summary :: "'p JDisplayPart list"
  j_blockTags :: "'p JCommentTag list option"
  j_modifierTags :: "string list option"
  j_label :: "string option"

text \<open>\<^verbatim>\<open>Array.prototype.map\<close> with a callback that may raise: the first exception ends it.\<close>

fun map_raising :: "('a \<Rightarrow> error + 'b) \<Rightarrow> 'a list \<Rightarrow> error + 'b list" where
  "map_raising f [] = Inr []"
| "map_raising f (x # xs) =
     (case f x of
        Inl e \<Rightarrow> Inl e
      | Inr y \<Rightarrow> (case map_raising f xs of Inl e \<Rightarrow> Inl e | Inr ys \<Rightarrow> Inr (y # ys)))"

text \<open>
  The callback of \<^verbatim>\<open>serializeDisplayParts\<close>. \<^verbatim>\<open>symToObject\<close> stands for the method
  \<^verbatim>\<open>toObject(serializer)\<close> of \<^verbatim>\<open>ReflectionSymbolId\<close>. A relative link whose target is unset is
  not a number, so the code reads \<^verbatim>\<open>part.target.id\<close>, which raises.
\<close>

fun serializePart :: "('sym \<Rightarrow> 'p) \<Rightarrow> 'sym CommentDisplayPart \<Rightarrow> error + 'p JDisplayPart" where
  "serializePart symToObject (Text t) = Inr (JText t)"
| "serializePart symToObject (Code t) = Inr (JCode t)"
| "serializePart symToObject (InlineTag tg t target lt) =
     Inr (JInlineTag tg t
       (case target of
          None \<Rightarrow> None
        | Some (TargetString s) \<Rightarrow> Some (JString s)
        | Some (TargetReflection r) \<Rightarrow> Some (JNumber (refl_id r))
        | Some (TargetSymbolId sid) \<Rightarrow> Some (JSymbolId (symToObject sid)))
       lt)"
| "serializePart symToObject (RelativeLink t (Some (LinkMedia n))) =
     Inr (JRelativeLink t (JMedia n))"
| "serializePart symToObject (RelativeLink t (Some (LinkReflection r))) =
     Inr (JRelativeLink t (JReflection (refl_id r)))"
| "serializePart symToObject (RelativeLink t None) = Inl TypeError"

definition serializeDisplayParts ::
  "('sym \<Rightarrow> 'p) \<Rightarrow> 'sym CommentDisplayPart list \<Rightarrow> error + 'p JDisplayPart list" where
  "serializeDisplayParts symToObject parts = map_raising (serializePart symToObject) parts"

definition CommentTag_toObject ::
  "('sym \<Rightarrow> 'p) \<Rightarrow> 'sym CommentTag \<Rightarrow> error + 'p JCommentTag" where
  "CommentTag_toObject symToObject this =
     (case serializeDisplayParts symToObject (content this) of
        Inl e \<Rightarrow> Inl e
      | Inr c \<Rightarrow> Inr \<lparr>j_tag = tag this, j_name = name this, j_content = c\<rparr>)"

text \<open>
  Modelled from the spec: the class \<^verbatim>\<open>Serializer\<close> is not among the sources. Its
  \<^verbatim>\<open>toObjectsOptional\<close> turns each tag into its plain object by the tag's own \<^verbatim>\<open>toObject\<close>,
  and an optional field absent at write time is omitted (section 4.4): no tags, no field.
\<close>

definition toObjectsOptional ::
  "('sym \<Rightarrow> 'p) \<Rightarrow> 'sym CommentTag list \<Rightarrow> error + 'p JCommentTag list option" where
  "toObjectsOptional symToObject tags =
     (if tags = [] then Inr None
      else case map_raising (CommentTag_toObject symToObject) tags of
             Inl e \<Rightarrow> Inl e
           | Inr objs \<Rightarrow> Inr (Some objs))"

definition Comment_toObject :: "('sym \<Rightarrow> 'p) \<Rightarrow> 'sym Comment \<Rightarrow> error + 'p JComment" where
  "Comment_toObject symToObject this =
     (case serializeDisplayParts symToObject (summary this) of
        Inl e \<Rightarrow> Inl e
      | Inr s \<Rightarrow>
          (case toObjectsOptional symToObject (blockTags this) of
             Inl e \<Rightarrow> Inl e
           | Inr bt \<Rightarrow>
               Inr \<lparr>j_summary = s, j_blockTags = bt,
                    j_modifierTags =
                      (if length (modifierTags this) > 0 then Some (modifierTags this) else None),
                    j_label = label this\<rparr>))"

section \<open>Deserialization\<close>

text \<open>
  The warning of the deferred callback is the translated message
  \<^verbatim>\<open>serialized_project_referenced_0_not_part_of_project\<close> applied to \<^verbatim>\<open>oldId.toString()\<close>;
  the translation table is the application's, so the message is kept as its key and its
  argument.
\<close>

datatype message = serialized_project_referenced_0_not_part_of_project string

text \<open>
  A link is the pair \<^verbatim>\<open>[oldId, part]\<close> pushed on \<^verbatim>\<open>links\<close>: the model names the part object by
  its index in the array \<^verbatim>\<open>result\<close> that holds it.

  The members of the \<^verbatim>\<open>Deserializer\<close> that \<^verbatim>\<open>comment.ts\<close> uses: the table \<^verbatim>\<open>oldIdToNewId\<close>, the
  queue filled by \<^verbatim>\<open>defer\<close>, and the logger (the warnings it received, in order). A queued
  callback is the list \<^verbatim>\<open>links\<close> it closes over, with the place \<open>'loc\<close> where the caller
  stores the array whose parts the links name.
\<close>

type_synonym link = "int \<times> nat"

record 'loc Deserializer =
  oldIdToNewId :: "int \<rightharpoonup> int"
  deferred :: "('loc \<times> link list) list"
  logger :: "message list"

text \<open>
  The callback of \<^verbatim>\<open>parts.map\<close> in \<^verbatim>\<open>deserializeDisplayParts\<close>: the revived part, and the old
  identifier when the part is pushed on \<^verbatim>\<open>links\<close>. \<^verbatim>\<open>newSymbolId\<close> stands for
  \<^verbatim>\<open>new ReflectionSymbolId(json)\<close>.
\<close>

fun revivePart :: "('p \<Rightarrow> 'sym) \<Rightarrow> 'p JDisplayPart \<Rightarrow> 'sym CommentDisplayPart \<times> int option" where
  "revivePart newSymbolId (JText t) = (Text t, None)"
| "revivePart newSymbolId (JCode t) = (Code t, None)"
| "revivePart newSymbolId (JInlineTag tg t (Some (JNumber n)) lt) =
     (InlineTag tg t None lt, Some n)"
| "revivePart newSymbolId (JInlineTag tg t (Some (JString s)) lt) =
     (InlineTag tg t (Some (TargetString s)) lt, None)"
| "revivePart newSymbolId (JInlineTag tg t None lt) = (InlineTag tg t None lt, None)"
| "revivePart newSymbolId (JInlineTag tg t (Some (JSymbolId p)) lt) =
     (InlineTag tg t (Some (TargetSymbolId (newSymbolId p))) lt, None)"
| "revivePart newSymbolId (JRelativeLink t (JMedia n)) =
     (RelativeLink t (Some (LinkMedia n)), None)"
| "revivePart newSymbolId (JRelativeLink t (JReflection n)) = (RelativeLink t None, Some n)"

text \<open>The map over the parts, from index \<open>i\<close> on: the array \<^verbatim>\<open>result\<close> and the list \<^verbatim>\<open>links\<close>.\<close>

fun reviveParts ::
  "('p \<Rightarrow> 'sym) \<Rightarrow> nat \<Rightarrow> 'p JDisplayPart list \<Rightarrow> 'sym CommentDisplayPart list \<times> link list" where
  "reviveParts newSymbolId i [] = ([], [])"
| "reviveParts newSymbolId i (part # parts) =
     (case revivePart newSymbolId part of
        (part2, pushed) \<Rightarrow>
          (case reviveParts newSymbolId (Suc i) parts of
             (result, links) \<Rightarrow>
               (part2 # result,
                (case pushed of None \<Rightarrow> [] | Some oldId \<Rightarrow> [(oldId, i)]) @ links)))"

definition deserializeDisplayParts ::
  "('p \<Rightarrow> 'sym) \<Rightarrow> 'loc Deserializer \<Rightarrow> 'loc \<Rightarrow> 'p JDisplayPart list \<Rightarrow>
   'sym CommentDisplayPart list \<times> 'loc Deserializer" where
  "deserializeDisplayParts newSymbolId de loc parts =
     (case reviveParts newSymbolId 0 parts of
        (result, links) \<Rightarrow>
          (result,
           if links \<noteq> [] then de\<lparr>deferred := deferred de @ [(loc, links)]\<rparr> else de))"

text \<open>
  The assignment \<^verbatim>\<open>part.target = project.getReflectionById(...)\<close>; only inline tags and
  relative links are ever pushed on \<^verbatim>\<open>links\<close>.
\<close>

fun setTarget :: "Reflection option \<Rightarrow> 'sym CommentDisplayPart \<Rightarrow> 'sym CommentDisplayPart" where
  "setTarget r (InlineTag tg t _ lt) = InlineTag tg t (map_option TargetReflection r) lt"
| "setTarget r (RelativeLink t _) = RelativeLink t (map_option LinkReflection r)"
| "setTarget r (Text t) = Text t"
| "setTarget r (Code t) = Code t"

text \<open>The identifier looked up by the callback: \<^verbatim>\<open>de.oldIdToNewId[oldId] ?? -1\<close>.\<close>

definition remappedId :: "(int \<rightharpoonup> int) \<Rightarrow> int \<Rightarrow> int" where
  "remappedId old2new oldId = (case old2new oldId of None \<Rightarrow> - 1 | Some newId \<Rightarrow> newId)"

text \<open>
  One turn of the loop of the deferred callback. The project is the function
  \<^verbatim>\<open>getReflectionById\<close> of the revived project.
\<close>

definition resolveLink ::
  "(int \<rightharpoonup> Reflection) \<Rightarrow> (int \<rightharpoonup> int) \<Rightarrow>
   'sym CommentDisplayPart list \<times> message list \<Rightarrow> link \<Rightarrow>
   'sym CommentDisplayPart list \<times> message list" where
  "resolveLink project old2new st lnk =
     (case st of
        (parts, warnings) \<Rightarrow>
          (case lnk of
             (oldId, i) \<Rightarrow>
               (let target = project (remappedId old2new oldId) in
                (parts[i := setTarget target (parts ! i)],
                 if target = None then
                   warnings @
                   [serialized_project_referenced_0_not_part_of_project (toString oldId)]
                 else warnings))))"

definition resolveLinks ::
  "(int \<rightharpoonup> Reflection) \<Rightarrow> (int \<rightharpoonup> int) \<Rightarrow> link list \<Rightarrow>
   'sym CommentDisplayPart list \<times> message list \<Rightarrow>
   'sym CommentDisplayPart list \<times> message list" where
  "resolveLinks project old2new links st = foldl (resolveLink project old2new) st links"

text \<open>
  Modelled from the spec: the class \<^verbatim>\<open>Deserializer\<close> is not among the sources. After the
  read pass it runs every deferred callback once, in the order they were queued (section
  4.5). Deserialization of one array of parts as a whole is the read pass on a deserializer
  with an empty queue and an empty log, then the callbacks it queued; the result is the
  array after the callbacks and the warnings logged.
\<close>

definition deserializeAndResolve ::
  "('p \<Rightarrow> 'sym) \<Rightarrow> (int \<rightharpoonup> Reflection) \<Rightarrow> (int \<rightharpoonup> int) \<Rightarrow> 'p JDisplayPart list \<Rightarrow>
   'sym CommentDisplayPart list \<times> message list" where
  "deserializeAndResolve newSymbolId project old2new parts =
     (case deserializeDisplayParts newSymbolId
             \<lparr>oldIdToNewId = old2new, deferred = [], logger = []\<rparr> () parts of
        (result, de) \<Rightarrow>
          foldl (\<lambda>st entry. resolveLinks project (oldIdToNewId de) (snd entry) st)
            (result, logger de) (deferred de))"

subsection \<open>Comment.fromObject\<close>

text \<open>The arrays of parts a comment owns: its summary, and the content of its tags.\<close>

datatype owner = SummaryParts | TagContent nat

text \<open>
  \<^verbatim>\<open>new Set(iterable)\<close>: the members in order of first insertion.
\<close>

definition new_Set :: "string list \<Rightarrow> string list" where
  "new_Set xs = foldl (\<lambda>members x. if x \<in> set members then members else members @ [x]) [] xs"

definition CommentTag_fromObject ::
  "('p \<Rightarrow> 'sym) \<Rightarrow> owner Deserializer \<Rightarrow> owner \<Rightarrow> 'sym CommentTag \<Rightarrow> 'p JCommentTag \<Rightarrow>
   'sym CommentTag \<times> owner Deserializer" where
  "CommentTag_fromObject newSymbolId de loc this obj =
     (case deserializeDisplayParts newSymbolId de loc (j_content obj) of
        (c, de') \<Rightarrow> (this\<lparr>name := j_name obj, content := c\<rparr>, de'))"

text \<open>
  Modelled from the spec: the class \<^verbatim>\<open>Deserializer\<close> is not among the sources. Its
  \<^verbatim>\<open>fromObject(receiver, obj)\<close> revives the receiver from the plain object by the receiver's
  own \<^verbatim>\<open>fromObject\<close> (section 4.4, read path).
\<close>

definition Deserializer_fromObject ::
  "('p \<Rightarrow> 'sym) \<Rightarrow> owner Deserializer \<Rightarrow> owner \<Rightarrow> 'sym CommentTag \<Rightarrow> 'p JCommentTag \<Rightarrow>
   'sym CommentTag \<times> owner Deserializer" where
  "Deserializer_fromObject newSymbolId de loc receiver obj =
     CommentTag_fromObject newSymbolId de loc receiver obj"

text \<open>
  The map over \<^verbatim>\<open>obj.blockTags\<close>: each tag is built by \<^verbatim>\<open>new CommentTag(tagObj.tag, [])\<close> and
  filled by \<^verbatim>\<open>de.fromObject(tag, tagObj)\<close>. The tag at index \<open>j\<close> owns the content
  \<open>TagContent j\<close>.
\<close>

fun reviveTags ::
  "('p \<Rightarrow> 'sym) \<Rightarrow> owner Deserializer \<Rightarrow> nat \<Rightarrow> 'p JCommentTag list \<Rightarrow>
   'sym CommentTag list \<times> owner Deserializer" where
  "reviveTags newSymbolId de j [] = ([], de)"
| "reviveTags newSymbolId de j (tagObj # tagObjs) =
     (case Deserializer_fromObject newSymbolId de (TagContent j)
             \<lparr>tag = j_tag tagObj, name = None, content = []\<rparr> tagObj of
        (t, de1) \<Rightarrow>
          (case reviveTags newSymbolId de1 (Suc j) tagObjs of
             (ts, de2) \<Rightarrow> (t # ts, de2)))"

definition Comment_fromObject ::
  "('p \<Rightarrow> 'sym) \<Rightarrow> owner Deserializer \<Rightarrow> 'sym Comment \<Rightarrow> 'p JComment \<Rightarrow>
   'sym Comment \<times> owner Deserializer" where
  "Comment_fromObject newSymbolId de this obj =
     (case deserializeDisplayParts newSymbolId de SummaryParts (j_summary obj) of
        (s, de1) \<Rightarrow>
          (case (case j_blockTags obj of
                   None \<Rightarrow> ([], de1)
                 | Some tagObjs \<Rightarrow> reviveTags newSymbolId de1 0 tagObjs) of
             (bt, de2) \<Rightarrow>
               (this\<lparr>summary := s, blockTags := bt,
                      modifierTags :=
                        new_Set (case j_modifierTags obj of None \<Rightarrow> [] | Some ms \<Rightarrow> ms),
                      label := j_label obj\<rparr>,
                de2)))"

text \<open>
  Modelled from the spec: the class \<^verbatim>\<open>Deserializer\<close> is not among the sources. After the
  whole graph is revived it runs every deferred callback once, in the order they were
  queued (section 4.5). A callback queued for an array of a comment changes the parts of
  that array and logs its warnings.
\<close>

definition runCallback ::
  "(int \<rightharpoonup> Reflection) \<Rightarrow> (int \<rightharpoonup> int) \<Rightarrow> 'sym Comment \<times> message list \<Rightarrow>
   owner \<times> link list \<Rightarrow> 'sym Comment \<times> message list" where
  "runCallback project old2new st entry =
     (case st of
        (c, warnings) \<Rightarrow>
          (case entry of
             (SummaryParts, links) \<Rightarrow>
               (case resolveLinks project old2new links (summary c, warnings) of
                  (parts, warnings') \<Rightarrow> (c\<lparr>summary := parts\<rparr>, warnings'))
           | (TagContent j, links) \<Rightarrow>
               (case resolveLinks project old2new links (content (blockTags c ! j), warnings) of
                  (parts, warnings') \<Rightarrow>
                    (c\<lparr>blockTags := (blockTags c)[j := (blockTags c ! j)\<lparr>content := parts\<rparr>]\<rparr>,
                     warnings'))))"

definition runDeferred ::
  "(int \<rightharpoonup> Reflection) \<Rightarrow> owner Deserializer \<Rightarrow> 'sym Comment \<Rightarrow>
   'sym Comment \<times> owner Deserializer" where
  "runDeferred project de c =
     (case foldl (runCallback project (oldIdToNewId de)) (c, logger de) (deferred de) of
        (c', warnings) \<Rightarrow> (c', de\<lparr>deferred := [], logger := warnings\<rparr>))"

text \<open>
  Deserialization of a comment as a whole, in a session of its own: \<^verbatim>\<open>fromObject\<close> on a fresh
  \<^verbatim>\<open>new Comment()\<close> with a deserializer whose queue and log are empty, then the deferred
  callbacks.
\<close>

definition deserializeComment ::
  "('p \<Rightarrow> 'sym) \<Rightarrow> (int \<rightharpoonup> Reflection) \<Rightarrow> (int \<rightharpoonup> int) \<Rightarrow> 'p JComment \<Rightarrow>
   'sym Comment \<times> owner Deserializer" where
  "deserializeComment newSymbolId project old2new obj =
     (case Comment_fromObject newSymbolId \<lparr>oldIdToNewId = old2new, deferred = [], logger = []\<rparr>
             (Comment_new [] [] []) obj of
        (c, de1) \<Rightarrow> runDeferred project de1 c)"

section \<open>Types\<close>

text \<open>
  \<^verbatim>\<open>IndexedAccessType\<close> owns two children of the abstract class \<^verbatim>\<open>Type\<close>. The other
  variants of \<^verbatim>\<open>Type\<close> live in \<^verbatim>\<open>./abstract\<close> and its siblings: they are the values of the
  type parameter \<open>'other\<close>, and their \<^verbatim>\<open>toString\<close> is a parameter of the
  function below.
\<close>

datatype 'other Type =
    IndexedAccessType (objectType: "'other Type") (indexType: "'other Type")
  | OtherType 'other

fun Type_toString :: "('other \<Rightarrow> string) \<Rightarrow> 'other Type \<Rightarrow> string" where
  "Type_toString otherToString (IndexedAccessType ob ix) =
     Type_toString otherToString ob @ ''['' @ Type_toString otherToString ix @ '']''"
| "Type_toString otherToString (OtherType x) = otherToString x"

section \<open>Cloning: objects and references\<close>

text \<open>
  \<^verbatim>\<open>clone()\<close> promises a copy that shares no object with its source, which is a statement
  about object identity: here the objects live in a store, and a reference is an address.
  \<^verbatim>\<open>fresh\<close> is the next address \<^verbatim>\<open>new\<close> (or an object or array literal) hands out.

  A part object holds its \<^verbatim>\<open>kind\<close>, \<^verbatim>\<open>text\<close>, \<^verbatim>\<open>tag\<close>, \<^verbatim>\<open>target\<close> and \<^verbatim>\<open>tsLinkText\<close>; a target
  that is a \<^verbatim>\<open>Reflection\<close> or a \<^verbatim>\<open>ReflectionSymbolId\<close> is a reference to that object. A
  \<^verbatim>\<open>CommentTag\<close> holds its tag, its name and the reference of its content array; a \<^verbatim>\<open>Comment\<close>
  the references of its summary array, its array of block tags and its set of modifier
  tags, then its label, source path and discovery id. An \<^verbatim>\<open>IndexedAccessType\<close> holds the
  references of its object type and its index type.

  The other variants of \<^verbatim>\<open>Type\<close> are not among the sources: a type of another variant is an
  object without children here.
\<close>

type_synonym ref = nat

datatype field_value = Undefined | Str string | Num int | Ref ref

datatype 'other cell =
    PartObj string string "string option" field_value "string option"
  | ArrayObj "ref list"
  | SetObj "string list"
  | CommentTagObj string "string option" ref
  | CommentObj ref ref ref "string option" "string option" "int option"
  | IndexedAccessTypeObj ref ref
  | OtherTypeObj 'other
  | ReflectionObj Reflection

record 'other heap =
  store :: "ref \<rightharpoonup> 'other cell"
  fresh :: ref

text \<open>Creating an object, and assigning to the fields of an existing one.\<close>

definition alloc :: "'other cell \<Rightarrow> 'other heap \<Rightarrow> ref \<times> 'other heap" where
  "alloc v h = (fresh h, h\<lparr>store := (store h)(fresh h \<mapsto> v), fresh := Suc (fresh h)\<rparr>)"

definition assign :: "ref \<Rightarrow> 'other cell \<Rightarrow> 'other heap \<Rightarrow> 'other heap" where
  "assign a v h = h\<lparr>store := (store h)(a \<mapsto> v)\<rparr>"

text \<open>
  \<^verbatim>\<open>Comment.cloneDisplayParts\<close>: \<^verbatim>\<open>parts.map((p) => ({ ...p }))\<close>. Each part is copied field by
  field into a new object, so a target that is an object is shared with the source part;
  the copies go into a new array. A reference that holds no part, or no array, does not
  occur in a well-typed program; the model answers \<^verbatim>\<open>TypeError\<close> there.
\<close>

fun cloneParts :: "ref list \<Rightarrow> 'other heap \<Rightarrow> error + ref list \<times> 'other heap" where
  "cloneParts [] h = Inr ([], h)"
| "cloneParts (p # ps) h =
     (case store h p of
        Some (PartObj k t tg target lt) \<Rightarrow>
          (case alloc (PartObj k t tg target lt) h of
             (p', h1) \<Rightarrow>
               (case cloneParts ps h1 of
                  Inl e \<Rightarrow> Inl e
                | Inr (ps', h2) \<Rightarrow> Inr (p' # ps', h2)))
      | _ \<Rightarrow> Inl TypeError)"

definition cloneDisplayParts_heap :: "ref \<Rightarrow> 'other heap \<Rightarrow> error + ref \<times> 'other heap" where
  "cloneDisplayParts_heap parts h =
     (case store h parts of
        Some (ArrayObj ps) \<Rightarrow>
          (case cloneParts ps h of
             Inl e \<Rightarrow> Inl e
           | Inr (ps', h1) \<Rightarrow> Inr (alloc (ArrayObj ps') h1))
      | _ \<Rightarrow> Inl TypeError)"

text \<open>
  \<^verbatim>\<open>CommentTag.clone\<close>: a new tag with the same \<^verbatim>\<open>tag\<close> and a clone of the content; the name
  is copied when it is truthy.
\<close>

definition CommentTag_clone :: "ref \<Rightarrow> 'other heap \<Rightarrow> error + ref \<times> 'other heap" where
  "CommentTag_clone this h =
     (case store h this of
        Some (CommentTagObj tg nm content_ref) \<Rightarrow>
          (case cloneDisplayParts_heap content_ref h of
             Inl e \<Rightarrow> Inl e
           | Inr (c', h1) \<Rightarrow>
               Inr (alloc (CommentTagObj tg (if truthy nm then nm else None) c') h1))
      | _ \<Rightarrow> Inl TypeError)"

text \<open>\<^verbatim>\<open>this.blockTags.map((tag) => tag.clone())\<close>, without the array that receives the clones.\<close>

fun cloneTags :: "ref list \<Rightarrow> 'other heap \<Rightarrow> error + ref list \<times> 'other heap" where
  "cloneTags [] h = Inr ([], h)"
| "cloneTags (t # ts) h =
     (case CommentTag_clone t h of
        Inl e \<Rightarrow> Inl e
      | Inr (t', h1) \<Rightarrow>
          (case cloneTags ts h1 of
             Inl e \<Rightarrow> Inl e
           | Inr (ts', h2) \<Rightarrow> Inr (t' # ts', h2)))"

text \<open>
  \<^verbatim>\<open>extractLabelTag\<close> on a comment object: the predicate of \<^verbatim>\<open>findIndex\<close> reads the part
  objects; \<^verbatim>\<open>splice\<close> changes the summary array in place, and the label is assigned to the
  comment.
\<close>

definition isLabelCell :: "'other heap \<Rightarrow> ref \<Rightarrow> bool" where
  "isLabelCell h p =
     (case store h p of
        Some (PartObj k t tg target lt) \<Rightarrow> k = ''inline-tag'' \<and> tg = Some ''@label''
      | _ \<Rightarrow> False)"

definition extractLabelTag_heap :: "ref \<Rightarrow> 'other heap \<Rightarrow> error + 'other heap" where
  "extractLabelTag_heap comment h =
     (case store h comment of
        Some (CommentObj s b m lbl sp did) \<Rightarrow>
          (case store h s of
             Some (ArrayObj ps) \<Rightarrow>
               (let index = findIndex (isLabelCell h) ps in
                if index \<noteq> - 1 then
                  (case store h (ps ! nat index) of
                     Some (PartObj k t tg target lt) \<Rightarrow>
                       Inr (assign comment (CommentObj s b m (Some t) sp did)
                             (assign s
                               (ArrayObj (take (nat index) ps @ drop (nat index + 1) ps)) h))
                   | _ \<Rightarrow> Inl TypeError)
                else Inr h)
           | _ \<Rightarrow> Inl TypeError)
      | _ \<Rightarrow> Inl TypeError)"

text \<open>
  \<^verbatim>\<open>Comment.clone\<close>: the three arguments of \<^verbatim>\<open>new Comment(...)\<close> are evaluated in order (the
  cloned summary, the array of cloned tags, the new \<^verbatim>\<open>Set\<close>), the constructor stores them
  and calls \<^verbatim>\<open>extractLabelTag\<close>, then \<^verbatim>\<open>discoveryId\<close> and \<^verbatim>\<open>sourcePath\<close> are assigned. The label
  of the source is not among the things copied. The array and the set that the field
  initialisers create are replaced by the constructor at once and are left out.
\<close>

definition Comment_clone :: "ref \<Rightarrow> 'other heap \<Rightarrow> error + ref \<times> 'other heap" where
  "Comment_clone this h =
     (case store h this of
        Some (CommentObj s b m lbl sp did) \<Rightarrow>
          (case cloneDisplayParts_heap s h of
             Inl e \<Rightarrow> Inl e
           | Inr (s', h1) \<Rightarrow>
               (case store h1 b of
                  Some (ArrayObj ts) \<Rightarrow>
                    (case cloneTags ts h1 of
                       Inl e \<Rightarrow> Inl e
                     | Inr (ts', h2) \<Rightarrow>
                         (case alloc (ArrayObj ts') h2 of
                            (b', h3) \<Rightarrow>
                              (case store h3 m of
                                 Some (SetObj ms) \<Rightarrow>
                                   (case alloc (SetObj ms) h3 of
                                      (m', h4) \<Rightarrow>
                                        (case alloc (CommentObj s' b' m' None None None) h4 of
                                           (comment, h5) \<Rightarrow>
                                             (case extractLabelTag_heap comment h5 of
                                                Inl e \<Rightarrow> Inl e
                                              | Inr h6 \<Rightarrow>
                                                  (case store h6 comment of
                                                     Some (CommentObj s2 b2 m2 lbl2 sp2 did2) \<Rightarrow>
                                                       Inr (comment,
                                                            assign comment
                                                              (CommentObj s2 b2 m2 lbl2 sp did) h6)
                                                   | _ \<Rightarrow> Inl TypeError))))
                               | _ \<Rightarrow> Inl TypeError)))
                | _ \<Rightarrow> Inl TypeError))
      | _ \<Rightarrow> Inl TypeError)"

text \<open>
  Modelled from the spec: the other variants of \<^verbatim>\<open>Type\<close> are not among the sources.
  \<^verbatim>\<open>clone()\<close> of a type of another variant returns a deep, independent copy (section 3): for
  an object without children, a new object with the same content.
\<close>

definition OtherType_clone :: "'other \<Rightarrow> 'other heap \<Rightarrow> ref \<times> 'other heap" where
  "OtherType_clone x h = alloc (OtherTypeObj x) h"

text \<open>
  \<^verbatim>\<open>IndexedAccessType.clone\<close>: \<^verbatim>\<open>new IndexedAccessType(this.objectType.clone(),
  this.indexType.clone())\<close>. The call \<^verbatim>\<open>clone()\<close> on a child dispatches on the child's class.
  The recursion follows references, and ends on every type expression that is a tree; the
  fuel bounds its depth, and \<open>None\<close> is the call that does not return.
\<close>

fun Type_clone :: "nat \<Rightarrow> ref \<Rightarrow> 'other heap \<Rightarrow> (error + ref \<times> 'other heap) option" where
  "Type_clone 0 this h = None"
| "Type_clone (Suc fuel) this h =
     (case store h this of
        Some (IndexedAccessTypeObj ob ix) \<Rightarrow>
          (case Type_clone fuel ob h of
             None \<Rightarrow> None
           | Some (Inl e) \<Rightarrow> Some (Inl e)
           | Some (Inr (ob', h1)) \<Rightarrow>
               (case Type_clone fuel ix h1 of
                  None \<Rightarrow> None
                | Some (Inl e) \<Rightarrow> Some (Inl e)
                | Some (Inr (ix', h2)) \<Rightarrow>
                    Some (Inr (alloc (IndexedAccessTypeObj ob' ix') h2))))
      | Some (OtherTypeObj x) \<Rightarrow> Some (Inr (OtherType_clone x h))
      | _ \<Rightarrow> Some (Inl TypeError))"

text \<open>
  \<^verbatim>\<open>IndexedAccessType.toString\<close> on objects: the template calls \<^verbatim>\<open>toString()\<close> on the object
  type, then on the index type, each dispatching on the child's class; \<^verbatim>\<open>otherToString\<close> is
  the \<^verbatim>\<open>toString\<close> of the variants outside the sources. The store does not change. As for
  \<^verbatim>\<open>clone\<close>, the fuel bounds the depth of the recursion.
\<close>

fun Type_toString_heap ::
  "('other \<Rightarrow> string) \<Rightarrow> nat \<Rightarrow> ref \<Rightarrow> 'other heap \<Rightarrow> (error + string) option" where
  "Type_toString_heap otherToString 0 this h = None"
| "Type_toString_heap otherToString (Suc fuel) this h =
     (case store h this of
        Some (IndexedAccessTypeObj ob ix) \<Rightarrow>
          (case Type_toString_heap otherToString fuel ob h of
             None \<Rightarrow> None
           | Some (Inl e) \<Rightarrow> Some (Inl e)
           | Some (Inr s1) \<Rightarrow>
               (case Type_toString_heap otherToString fuel ix h of
                  None \<Rightarrow> None
                | Some (Inl e) \<Rightarrow> Some (Inl e)
                | Some (Inr s2) \<Rightarrow> Some (Inr (s1 @ ''['' @ s2 @ '']''))))
      | Some (OtherTypeObj x) \<Rightarrow> Some (Inr (otherToString x))
      | _ \<Rightarrow> Some (Inl TypeError))"

subsection \<open>Ownership\<close>

text \<open>
  The objects an object owns: an array its elements, a tag its content array, a comment its
  summary array, its array of tags and its set, an indexed access type its two children.
  The target of a part is a reference to a node of the reflection graph, which the comment
  does not own. What is reachable through an object is what it owns, transitively.
\<close>

fun ownedRefs :: "'other cell \<Rightarrow> ref list" where
  "ownedRefs (PartObj k t tg target lt) = []"
| "ownedRefs (ArrayObj rs) = rs"
| "ownedRefs (SetObj ms) = []"
| "ownedRefs (CommentTagObj tg nm c) = [c]"
| "ownedRefs (CommentObj s b m lbl sp did) = [s, b, m]"
| "ownedRefs (IndexedAccessTypeObj ob ix) = [ob, ix]"
| "ownedRefs (OtherTypeObj x) = []"
| "ownedRefs (ReflectionObj r) = []"

definition ownedEdge :: "'other heap \<Rightarrow> (ref \<times> ref) set" where
  "ownedEdge h = {(a, b). \<exists>v. store h a = Some v \<and> b \<in> set (ownedRefs v)}"

definition reachable :: "'other heap \<Rightarrow> ref \<Rightarrow> ref set" where
  "reachable h a = (ownedEdge h)\<^sup>* `` {a}"

text \<open>Every object of the store was created by \<^verbatim>\<open>alloc\<close>: its address is below \<^verbatim>\<open>fresh\<close>.\<close>

definition wf_heap :: "'other heap \<Rightarrow> bool" where
  "wf_heap h = (\<forall>r v. store h r = Some v \<longrightarrow> r < fresh h)"

text \<open>
  The shapes of the objects of a comment in the store: parts, an array of parts, a tag, and
  a comment with its three owned objects.
\<close>

definition isPart :: "'other heap \<Rightarrow> ref \<Rightarrow> bool" where
  "isPart h p = (case store h p of Some (PartObj k t tg target lt) \<Rightarrow> True | _ \<Rightarrow> False)"

definition isPartsArray :: "'other heap \<Rightarrow> ref \<Rightarrow> bool" where
  "isPartsArray h a =
     (case store h a of Some (ArrayObj ps) \<Rightarrow> list_all (isPart h) ps | _ \<Rightarrow> False)"

definition isTag :: "'other heap \<Rightarrow> ref \<Rightarrow> bool" where
  "isTag h t =
     (case store h t of Some (CommentTagObj tg nm c) \<Rightarrow> isPartsArray h c | _ \<Rightarrow> False)"

definition isComment :: "'other heap \<Rightarrow> ref \<Rightarrow> bool" where
  "isComment h a =
     (case store h a of
        Some (CommentObj s b m lbl sp did) \<Rightarrow>
          isPartsArray h s \<and>
          (case store h b of Some (ArrayObj ts) \<Rightarrow> list_all (isTag h) ts | _ \<Rightarrow> False) \<and>
          (case store h m of Some (SetObj ms) \<Rightarrow> True | _ \<Rightarrow> False)
      | _ \<Rightarrow> False)"

text \<open>The store holds the type expression \<open>t\<close> at the reference \<open>a\<close>.\<close>

primrec typeAt :: "'other heap \<Rightarrow> ref \<Rightarrow> 'other Type \<Rightarrow> bool" where
  "typeAt h a (IndexedAccessType ob ix) =
     (case store h a of
        Some (IndexedAccessTypeObj o_ref i_ref) \<Rightarrow> typeAt h o_ref ob \<and> typeAt h i_ref ix
      | _ \<Rightarrow> False)"
| "typeAt h a (OtherType x) = (store h a = Some (OtherTypeObj x))"

primrec height :: "'other Type \<Rightarrow> nat" where
  "height (IndexedAccessType ob ix) = Suc (max (height ob) (height ix))"
| "height (OtherType x) = 0"

text \<open>
  The store \<open>h'\<close> extends \<open>h\<close>: objects were created, none was changed. The objects at or
  above \<open>n\<close> are closed when they own only objects at or above \<open>n\<close>.
\<close>

definition extends :: "'other heap \<Rightarrow> 'other heap \<Rightarrow> bool" where
  "extends h h' \<longleftrightarrow>
     wf_heap h \<and> wf_heap h' \<and> fresh h \<le> fresh h' \<and> (\<forall>r<fresh h. store h' r = store h r)"

definition closed_above :: "ref \<Rightarrow> 'other heap \<Rightarrow> bool" where
  "closed_above n h \<longleftrightarrow>
     (\<forall>r v. n \<le> r \<longrightarrow> store h r = Some v \<longrightarrow> (\<forall>b\<in>set (ownedRefs v). n \<le> b))"

text \<open>
  \<open>x'\<close> in \<open>h'\<close> is an independent copy made from the store \<open>h\<close>: it is none of the objects
  of \<open>h\<close>; the objects of \<open>h\<close> are in \<open>h'\<close> as they were; nothing reachable through \<open>x'\<close> is
  an object of \<open>h\<close>; assigning to an object reachable through \<open>x'\<close> leaves every object of
  \<open>h\<close> as it was; and assigning to an object of \<open>h\<close> leaves every object reachable through
  \<open>x'\<close> as it is.
\<close>

definition independent_copy :: "'other heap \<Rightarrow> ref \<Rightarrow> 'other heap \<Rightarrow> bool" where
  "independent_copy h x' h' \<longleftrightarrow>
     x' \<notin> dom (store h) \<and>
     (\<forall>r\<in>dom (store h). store h' r = store h r) \<and>
     reachable h' x' \<inter> dom (store h) = {} \<and>
     (\<forall>b\<in>reachable h' x'. \<forall>v. \<forall>r\<in>dom (store h). store (assign b v h') r = store h r) \<and>
     (\<forall>b\<in>dom (store h). \<forall>v. \<forall>r\<in>reachable h' x'. store (assign b v h') r = store h' r)"

subsection \<open>What a comment object holds\<close>

text \<open>
  The content of the objects of a comment, read from the store: the part objects of an
  array, in order; the tag, the name and the parts of a \<^verbatim>\<open>CommentTag\<close>; and the six fields of
  a \<^verbatim>\<open>Comment\<close>, with the arrays and the set replaced by what they hold. A target that is a
  reference stays a reference: two parts with the same content target the same object.
\<close>

definition partsView :: "'other heap \<Rightarrow> ref \<Rightarrow> 'other cell option list" where
  "partsView h a = (case store h a of Some (ArrayObj ps) \<Rightarrow> map (store h) ps | _ \<Rightarrow> [])"

definition tagView ::
  "'other heap \<Rightarrow> ref \<Rightarrow> string \<times> string option \<times> 'other cell option list" where
  "tagView h t =
     (case store h t of
        Some (CommentTagObj tg nm c) \<Rightarrow> (tg, nm, partsView h c)
      | _ \<Rightarrow> ([], None, []))"

record 'other comment_view =
  view_summary :: "'other cell option list"
  view_blockTags :: "(string \<times> string option \<times> 'other cell option list) list"
  view_modifierTags :: "string list"
  view_label :: "string option"
  view_sourcePath :: "string option"
  view_discoveryId :: "int option"

definition commentView :: "'other heap \<Rightarrow> ref \<Rightarrow> 'other comment_view option" where
  "commentView h x =
     (case store h x of
        Some (CommentObj s b m lbl sp did) \<Rightarrow>
          Some \<lparr>view_summary = partsView h s,
                view_blockTags =
                  (case store h b of Some (ArrayObj ts) \<Rightarrow> map (tagView h) ts | _ \<Rightarrow> []),
                view_modifierTags = (case store h m of Some (SetObj ms) \<Rightarrow> ms | _ \<Rightarrow> []),
                view_label = lbl, view_sourcePath = sp, view_discoveryId = did\<rparr>
      | _ \<Rightarrow> None)"

text \<open>
  What \<^verbatim>\<open>clone()\<close> makes of that content, statement by statement. \<^verbatim>\<open>CommentTag.clone\<close> keeps the
  tag and the parts, and the name when it is truthy. \<^verbatim>\<open>Comment.clone\<close> passes the parts of the
  summary, the cloned tags and the members of the set to the constructor, which starts
  without a label and calls \<^verbatim>\<open>extractLabelTag\<close>: the first inline tag \<^verbatim>\<open>@label\<close> of the summary,
  when there is one, is taken out and its text becomes the label. Then \<^verbatim>\<open>discoveryId\<close> and
  \<^verbatim>\<open>sourcePath\<close> are copied. The label of the source is not.
\<close>

fun isLabelPart :: "'other cell option \<Rightarrow> bool" where
  "isLabelPart (Some (PartObj k t tg target lt)) = (k = ''inline-tag'' \<and> tg = Some ''@label'')"
| "isLabelPart _ = False"

fun partText :: "'other cell option \<Rightarrow> string option" where
  "partText (Some (PartObj k t tg target lt)) = Some t"
| "partText _ = None"

definition clonedTagView ::
  "string \<times> string option \<times> 'other cell option list \<Rightarrow>
   string \<times> string option \<times> 'other cell option list" where
  "clonedTagView v = (case v of (tg, nm, ps) \<Rightarrow> (tg, if truthy nm then nm else None, ps))"

definition clonedView :: "'other comment_view \<Rightarrow> 'other comment_view" where
  "clonedView v =
     (let index = findIndex isLabelPart (view_summary v) in
      \<lparr>view_summary =
         (if index \<noteq> - 1
          then take (nat index) (view_summary v) @ drop (nat index + 1) (view_summary v)
          else view_summary v),
       view_blockTags = map clonedTagView (view_blockTags v),
       view_modifierTags = view_modifierTags v,
       view_label = (if index \<noteq> - 1 then partText (view_summary v ! nat index) else None),
       view_sourcePath = view_sourcePath v,
       view_discoveryId = view_discoveryId v\<rparr>)"

section \<open>Notions used to state the properties\<close>

text \<open>
  A relative link is well typed when its target is set, as the declared type
  \<^verbatim>\<open>Reflection | number\<close> says.
\<close>

fun linkTargetSet :: "'sym CommentDisplayPart \<Rightarrow> bool" where
  "linkTargetSet (RelativeLink _ None) = False"
| "linkTargetSet _ = True"

text \<open>The reflections and the symbol identifiers a part links to.\<close>

fun linkedReflections :: "'sym CommentDisplayPart \<Rightarrow> Reflection list" where
  "linkedReflections (InlineTag _ _ (Some (TargetReflection r)) _) = [r]"
| "linkedReflections (RelativeLink _ (Some (LinkReflection r))) = [r]"
| "linkedReflections _ = []"

fun symbolIds :: "'sym CommentDisplayPart \<Rightarrow> 'sym list" where
  "symbolIds (InlineTag _ _ (Some (TargetSymbolId s)) _) = [s]"
| "symbolIds _ = []"

text \<open>All the parts a comment owns: its summary, then the content of each block tag.\<close>

definition commentParts :: "'sym Comment \<Rightarrow> 'sym CommentDisplayPart list" where
  "commentParts c = summary c @ concat (map content (blockTags c))"

text \<open>
  What the two phases of deserialization make of one serialized part: the revived part,
  with the target the callback assigns when the part was pushed on \<^verbatim>\<open>links\<close>; and the
  warnings the callback logs for it. The lemmas below show that the read pass followed by
  the callbacks computes exactly these, part by part.
\<close>

definition resolvedPart ::
  "('p \<Rightarrow> 'sym) \<Rightarrow> (int \<rightharpoonup> Reflection) \<Rightarrow> (int \<rightharpoonup> int) \<Rightarrow> 'p JDisplayPart \<Rightarrow>
   'sym CommentDisplayPart" where
  "resolvedPart newSymbolId project old2new obj =
     (case revivePart newSymbolId obj of
        (part2, None) \<Rightarrow> part2
      | (part2, Some oldId) \<Rightarrow> setTarget (project (remappedId old2new oldId)) part2)"

definition warningsOf ::
  "('p \<Rightarrow> 'sym) \<Rightarrow> (int \<rightharpoonup> Reflection) \<Rightarrow> (int \<rightharpoonup> int) \<Rightarrow> 'p JDisplayPart \<Rightarrow>
   message list" where
  "warningsOf newSymbolId project old2new obj =
     (case snd (revivePart newSymbolId obj) of
        None \<Rightarrow> []
      | Some oldId \<Rightarrow>
          if project (remappedId old2new oldId) = None
          then [serialized_project_referenced_0_not_part_of_project (toString oldId)] else [])"

definition resolvedTag ::
  "('p \<Rightarrow> 'sym) \<Rightarrow> (int \<rightharpoonup> Reflection) \<Rightarrow> (int \<rightharpoonup> int) \<Rightarrow> 'p JCommentTag \<Rightarrow>
   'sym CommentTag" where
  "resolvedTag newSymbolId project old2new tagObj =
     \<lparr>tag = j_tag tagObj, name = j_name tagObj,
      content = map (resolvedPart newSymbolId project old2new) (j_content tagObj)\<rparr>"

definition tagWarnings ::
  "('p \<Rightarrow> 'sym) \<Rightarrow> (int \<rightharpoonup> Reflection) \<Rightarrow> (int \<rightharpoonup> int) \<Rightarrow> 'p JCommentTag \<Rightarrow>
   message list" where
  "tagWarnings newSymbolId project old2new tagObj =
     concat (map (warningsOf newSymbolId project old2new) (j_content tagObj))"

section \<open>Facts about the primitives\<close>

lemma findIndex_none: "(findIndex P xs = - 1) = (\<forall>x\<in>set xs. \<not> P x)"
  and findIndex_ge: "- 1 \<le> findIndex P xs"
  by (induction xs) (auto simp: Let_def)

lemma findIndex_lt: "findIndex P xs < int (length xs)"
  by (induction xs) (auto simp: Let_def)

lemma findIndex_first:
  "\<forall>p\<in>set pre. \<not> P p \<Longrightarrow> P x \<Longrightarrow> findIndex P (pre @ x # post) = int (length pre)"
  by (induction pre) (auto simp: Let_def)

lemma includes_nonempty: "includes_char t c \<Longrightarrow> t \<noteq> []"
  by (auto simp: includes_char_def)

lemma indexOf_none: "(indexOf s c = - 1) = (\<not> includes_char s c)"
  by (auto simp: indexOf_def includes_char_def findIndex_none)

lemma hasNewline_text: "hasNewline p \<Longrightarrow> includes_char (part_text p) newline"
  by (cases p) auto

lemma dropWhile_fix: "xs = [] \<or> \<not> P (hd xs) \<Longrightarrow> dropWhile P xs = xs"
  by (cases xs) auto

lemma dropWhile_head: "dropWhile P xs = [] \<or> \<not> P (hd (dropWhile P xs))"
  using hd_dropWhile by blast

lemma rev_dropWhile_rev_head:
  "xs = [] \<or> \<not> P (hd xs) \<Longrightarrow>
   rev (dropWhile P (rev xs)) = [] \<or> \<not> P (hd (rev (dropWhile P (rev xs))))"
  by (cases xs) (auto simp: dropWhile_append)

lemma trim_idem: "trim (trim s) = trim s"
proof -
  let ?u = "dropWhile isWhiteSpace s"
  let ?w = "dropWhile isWhiteSpace (rev ?u)"
  have "dropWhile isWhiteSpace (rev ?w) = rev ?w"
    by (rule dropWhile_fix, rule rev_dropWhile_rev_head, rule dropWhile_head)
  moreover have "dropWhile isWhiteSpace ?w = ?w"
    by (rule dropWhile_fix, rule dropWhile_head)
  ultimately show ?thesis
    by (simp add: trim_def)
qed

lemma trim_Nil: "trim [] = []"
  by (simp add: trim_def)

section \<open>The label of a comment\<close>

text \<open>
  Claim C3, as the spec states it: a comment constructed from a summary that contains an
  inline tag \<^verbatim>\<open>@label\<close> has no inline tag \<^verbatim>\<open>@label\<close> left in its summary, also when the
  summary holds more than one. The constructor removes one part, the first: with two
  labels the second stays.
\<close>

theorem label_extraction_two_labels:
  "list_ex isLabelTag
     [InlineTag ''@label'' ''A'' None None, InlineTag ''@label'' ''B'' None None] \<and>
   summary (Comment_new
     [InlineTag ''@label'' ''A'' None None, InlineTag ''@label'' ''B'' None None] [] []) =
     [InlineTag ''@label'' ''B'' None None] \<and>
   list_ex isLabelTag (summary (Comment_new
     [InlineTag ''@label'' ''A'' None None, InlineTag ''@label'' ''B'' None None] [] []))"
  by (simp add: Comment_new_def extractLabelTag_def)

text \<open>
  Claim C3, amended: when the first inline tag \<^verbatim>\<open>@label\<close> of the summary is the part after
  \<open>pre\<close>, the constructed comment has that part's text as its label and the summary
  without that one part; the summary still holds a label tag exactly when another one
  followed the first.
\<close>

theorem label_extraction_first:
  assumes "\<not> list_ex isLabelTag pre"
  shows "Comment_new (pre @ InlineTag ''@label'' t target lt # post) bts mts =
           \<lparr>summary = pre @ post, blockTags = bts, modifierTags = mts, label = Some t,
            sourcePath = None, discoveryId = None\<rparr> \<and>
         list_ex isLabelTag
           (summary (Comment_new (pre @ InlineTag ''@label'' t target lt # post) bts mts)) =
         list_ex isLabelTag post"
proof -
  have pre: "\<forall>p\<in>set pre. \<not> isLabelTag p"
    using assms by (simp add: list_ex_iff)
  have "Comment_new (pre @ InlineTag ''@label'' t target lt # post) bts mts =
           \<lparr>summary = pre @ post, blockTags = bts, modifierTags = mts, label = Some t,
            sourcePath = None, discoveryId = None\<rparr>"
    using pre by (simp add: Comment_new_def extractLabelTag_def findIndex_first Let_def nth_append)
  then show ?thesis
    using pre by (auto simp: list_ex_iff)
qed

theorem label_extraction_first_witness:
  "\<not> list_ex isLabelTag [Text ''See ''] \<and>
   Comment_new [Text ''See '', InlineTag ''@label'' ''Foo'' None None, Text ''.''] [] [''@beta''] =
     \<lparr>summary = [Text ''See '', Text ''.''], blockTags = [], modifierTags = [''@beta''],
      label = Some ''Foo'', sourcePath = None, discoveryId = None\<rparr>"
  using label_extraction_first [of "[Text ''See '']" "''Foo''" None None "[Text ''.'']" "[]" "[''@beta'']"]
  by auto

section \<open>Header and body\<close>

lemma finishSplit_trimmed: "finishSplit h b = Inr r \<Longrightarrow> trim (header r) = header r"
  by (auto simp: finishSplit_def trim_idem split: list.splits)

lemma split_trimmed:
  assumes "findIndex hasNewline parts \<noteq> - 1" "splitPartsToHeaderAndBody parts = Inr r"
  shows "trim (header r) = header r"
  using assms unfolding splitPartsToHeaderAndBody_def Let_def
  by (auto simp: trim_Nil split: if_splits sum.splits list.splits dest: finishSplit_trimmed)

lemma split_no_newline:
  assumes "\<forall>p\<in>set parts. \<not> hasNewline p"
  shows "splitPartsToHeaderAndBody parts =
    (case combineDisplayParts parts of Inl e \<Rightarrow> Inl e | Inr h \<Rightarrow> Inr \<lparr>header = h, body = []\<rparr>)"
  using assms by (simp add: splitPartsToHeaderAndBody_def findIndex_none)

lemma split_Line1_Line2:
  "splitPartsToHeaderAndBody [Text ''Line1\<newline>Line2''] =
     Inr \<lparr>header = ''Line1'', body = [Text ''Line2'']\<rparr>"
  by (simp add: splitPartsToHeaderAndBody_def includes_char_def newline_def indexOf_def
      cloneDisplayParts_def finishSplit_def trim_def isWhiteSpace_def)

text \<open>
  Claim C4: when the first part whose text contains a newline is a code part, the code part
  is not divided. With no part before it, the header is empty and the body is the whole
  sequence. Otherwise the header ends with the text of the part before the code part (the
  parts before that one combined, then that text, trimmed) and the body starts with the
  whole code part. The function raises only where \<^verbatim>\<open>combineDisplayParts\<close> does.
\<close>

theorem split_code_part_whole:
  assumes pre: "list_all (\<lambda>p. \<not> includes_char (part_text p) newline) pre"
      and t: "includes_char t newline"
  shows "splitPartsToHeaderAndBody (pre @ Code t # post) =
     (if pre = [] then Inr \<lparr>header = [], body = Code t # post\<rparr>
      else case combineDisplayParts (butlast pre) of
             Inl e \<Rightarrow> Inl e
           | Inr h \<Rightarrow> Inr \<lparr>header = trim (h @ part_text (last pre)), body = Code t # post\<rparr>)"
proof -
  let ?parts = "pre @ Code t # post"
  have pre': "\<forall>p\<in>set pre. \<not> includes_char (part_text p) newline"
    using pre by (simp add: list_all_iff)
  have no: "\<forall>p\<in>set pre. \<not> hasNewline p"
    using pre' hasNewline_text by blast
  have idx: "findIndex hasNewline ?parts = int (length pre)"
    using no t by (simp add: findIndex_first)
  have at: "?parts ! length pre = Code t" by simp
  show ?thesis
  proof (cases "pre = []")
    case True
    then show ?thesis
      using t by (simp add: splitPartsToHeaderAndBody_def cloneDisplayParts_def)
  next
    case False
    then obtain ys y where ys: "pre = ys @ [y]"
      by (metis rev_exhaust)
    have y: "indexOf (part_text y) newline = - 1"
      using pre' ys by (simp add: indexOf_none)
    have i1: "int (length pre) - 1 = int (length ys)" "int (length pre) - 1 \<noteq> - 1"
      using ys by simp_all
    have tk: "take (length ys) ?parts = ys" using ys by simp
    have nth: "?parts ! length ys = y" using ys by (simp add: nth_append)
    have dr: "drop (nat (int (length ys) + 1)) ?parts = Code t # post"
      using ys by (simp add: nat_add_distrib)
    have bl: "butlast pre = ys" "last pre = y" using ys by simp_all
    have fin: "finishSplit h (Code t # post) = Inr \<lparr>header = trim h, body = Code t # post\<rparr>" for h
      using includes_nonempty[OF t] by (simp add: finishSplit_def)
    have "splitPartsToHeaderAndBody ?parts =
       (case combineDisplayParts ys of Inl e \<Rightarrow> Inl e
        | Inr h \<Rightarrow> finishSplit (h @ part_text y) (Code t # post))"
      unfolding splitPartsToHeaderAndBody_def Let_def idx
      by (simp only: nat_int at is_code.simps if_True i1 if_False tk nth y dr
          cloneDisplayParts_def list.map_ident) (simp split: sum.split)
    then show ?thesis
      using False by (simp add: bl fin split: sum.split)
  qed
qed

theorem split_code_part_whole_witness:
  "list_all (\<lambda>p. \<not> includes_char (part_text p) newline) [Text ''Intro''] \<and>
   includes_char ''a\<newline>b'' newline \<and>
   splitPartsToHeaderAndBody [Text ''Intro'', Code ''a\<newline>b'', Text ''more''] =
     Inr \<lparr>header = ''Intro'', body = [Code ''a\<newline>b'', Text ''more'']\<rparr>"
  using split_code_part_whole [of "[Text ''Intro'']" "''a\<newline>b''" "[Text ''more'']"]
  by (simp add: includes_char_def newline_def trim_def isWhiteSpace_def)

text \<open>
  The search of \<^verbatim>\<open>findIndex\<close> looks at text and code parts only. When an inline tag or a
  relative link before the code part holds a newline in its text, the header ends inside
  that part; the code part is whole in the body all the same, after at most one part.
\<close>

lemma split_code_part_in_body:
  assumes pre: "\<not> list_ex hasNewline pre"
      and t: "includes_char t newline"
      and r: "splitPartsToHeaderAndBody (pre @ Code t # post) = Inr r"
  shows "\<exists>kept. body r = kept @ Code t # post \<and> length kept \<le> 1"
proof -
  let ?parts = "pre @ Code t # post"
  have no: "\<forall>p\<in>set pre. \<not> hasNewline p"
    using pre by (simp add: list_ex_iff)
  have idx: "findIndex hasNewline ?parts = int (length pre)"
    using no t by (simp add: findIndex_first)
  have at: "?parts ! length pre = Code t" by simp
  show ?thesis
  proof (cases "pre = []")
    case True
    then show ?thesis
      using t r by (auto simp: splitPartsToHeaderAndBody_def cloneDisplayParts_def)
  next
    case False
    then obtain ys y where ys: "pre = ys @ [y]"
      by (metis rev_exhaust)
    have i1: "int (length pre) - 1 = int (length ys)" "int (length pre) - 1 \<noteq> - 1"
      using ys by simp_all
    have tk: "take (length ys) ?parts = ys" using ys by simp
    have nth: "?parts ! length ys = y" using ys by (simp add: nth_append)
    have dr1: "drop (nat (int (length ys) + 1)) ?parts = Code t # post"
      using ys by (simp add: nat_add_distrib)
    have dr0: "drop (length ys) ?parts = y # Code t # post"
      using ys by simp
    have ne: "t \<noteq> []" using includes_nonempty [OF t] .
    have eq: "splitPartsToHeaderAndBody ?parts =
       (case combineDisplayParts ys of Inl e \<Rightarrow> Inl e
        | Inr h \<Rightarrow>
            if indexOf (part_text y) newline = - 1
            then finishSplit (h @ part_text y) (Code t # post)
            else finishSplit (h @ take (nat (indexOf (part_text y) newline)) (part_text y))
                   (set_text (drop (nat (indexOf (part_text y) newline + 1)) (part_text y)) y #
                    Code t # post))"
      unfolding splitPartsToHeaderAndBody_def Let_def idx
      by (simp only: nat_int at is_code.simps if_True i1 if_False tk nth dr0 dr1
          cloneDisplayParts_def list.map_ident list.case) (simp split: sum.split)
    show ?thesis
      using r ne unfolding eq
      by (auto simp: finishSplit_def split: sum.splits if_splits intro: exI [of _ "[]"])
  qed
qed

text \<open>
  Claim C6, as the spec states it: the header returned is always trimmed of surrounding
  white space. When no text or code part holds a newline the header is the combined
  string as it is, white space included.
\<close>

theorem split_header_untrimmed:
  "splitPartsToHeaderAndBody [Text '' Only one line ''] =
     Inr \<lparr>header = '' Only one line '', body = []\<rparr> \<and>
   trim '' Only one line '' \<noteq> '' Only one line ''"
  by (simp add: splitPartsToHeaderAndBody_def includes_char_def newline_def trim_def
      isWhiteSpace_def)

lemma indexOf_first:
  "\<not> includes_char a c \<Longrightarrow> indexOf (a @ c # b) c = int (length a)"
  unfolding indexOf_def includes_char_def
  by (rule findIndex_first) auto

lemma split_text_part:
  assumes pre: "\<not> list_ex hasNewline pre"
      and a: "\<not> includes_char a newline"
  shows "splitPartsToHeaderAndBody (pre @ Text (a @ newline # b) # post) =
     (case combineDisplayParts pre of
        Inl e \<Rightarrow> Inl e
      | Inr h \<Rightarrow>
          Inr \<lparr>header = trim (h @ a), body = (if b = [] then post else Text b # post)\<rparr>)"
proof -
  let ?t = "a @ newline # b"
  let ?parts = "pre @ Text ?t # post"
  have no: "\<forall>p\<in>set pre. \<not> hasNewline p"
    using pre by (simp add: list_ex_iff)
  have t: "hasNewline (Text ?t)"
    by (simp add: includes_char_def)
  have idx: "findIndex hasNewline ?parts = int (length pre)"
    using no t by (simp add: findIndex_first)
  have at: "?parts ! length pre = Text ?t" by simp
  have tk: "take (length pre) ?parts = pre" by simp
  have dr: "drop (length pre) ?parts = Text ?t # post" by simp
  have sp: "indexOf ?t newline = int (length a)"
    using a by (rule indexOf_first)
  have "splitPartsToHeaderAndBody ?parts =
       (case combineDisplayParts pre of Inl e \<Rightarrow> Inl e
        | Inr h \<Rightarrow> finishSplit (h @ a) (Text b # post))"
    unfolding splitPartsToHeaderAndBody_def Let_def idx
    by (simp only: nat_int at is_code.simps if_False tk dr cloneDisplayParts_def list.map_ident
        CommentDisplayPart.sel sp list.case)
       (simp add: nat_add_distrib split: sum.split)
  then show ?thesis
    by (simp add: finishSplit_def split: sum.split)
qed

lemma indexOf_takeWhile:
  "includes_char s c \<Longrightarrow> indexOf s c = int (length (takeWhile (\<lambda>d. d \<noteq> c) s))"
  unfolding indexOf_def includes_char_def
proof (induction s)
  case Nil
  then show ?case by simp
next
  case (Cons x xs)
  show ?case
  proof (cases "x = c")
    case True
    then show ?thesis by simp
  next
    case False
    then have "c \<in> set xs"
      using Cons.prems by auto
    then have "findIndex (\<lambda>d. d = c) xs \<noteq> - 1"
      by (auto simp: findIndex_none)
    then show ?thesis
      using False Cons.IH [OF \<open>c \<in> set xs\<close>] by (simp add: Let_def)
  qed
qed

lemma split_code_part:
  assumes pre: "\<not> list_ex hasNewline pre"
      and t: "includes_char t newline"
  shows "splitPartsToHeaderAndBody (pre @ Code t # post) =
     (if pre = [] then Inr \<lparr>header = [], body = Code t # post\<rparr>
      else case combineDisplayParts (butlast pre) of
             Inl e \<Rightarrow> Inl e
           | Inr h \<Rightarrow>
               Inr \<lparr>header = trim (h @ takeWhile (\<lambda>c. c \<noteq> newline) (part_text (last pre))),
                    body =
                      (if drop 1 (dropWhile (\<lambda>c. c \<noteq> newline) (part_text (last pre))) = []
                       then Code t # post
                       else set_text
                              (drop 1 (dropWhile (\<lambda>c. c \<noteq> newline) (part_text (last pre))))
                              (last pre) # Code t # post)\<rparr>)"
proof -
  let ?parts = "pre @ Code t # post"
  have no: "\<forall>p\<in>set pre. \<not> hasNewline p"
    using pre by (simp add: list_ex_iff)
  have idx: "findIndex hasNewline ?parts = int (length pre)"
    using no t by (simp add: findIndex_first)
  have at: "?parts ! length pre = Code t" by simp
  have ne: "t \<noteq> []" using includes_nonempty [OF t] .
  show ?thesis
  proof (cases "pre = []")
    case True
    then show ?thesis
      using t by (simp add: splitPartsToHeaderAndBody_def cloneDisplayParts_def)
  next
    case False
    then obtain ys y where ys: "pre = ys @ [y]"
      by (metis rev_exhaust)
    let ?s = "part_text y"
    have i1: "int (length pre) - 1 = int (length ys)" "int (length pre) - 1 \<noteq> - 1"
      using ys by simp_all
    have tk: "take (length ys) ?parts = ys" using ys by simp
    have nth: "?parts ! length ys = y" using ys by (simp add: nth_append)
    have dr1: "drop (nat (int (length ys) + 1)) ?parts = Code t # post"
      using ys by (simp add: nat_add_distrib)
    have dr0: "drop (length ys) ?parts = y # Code t # post"
      using ys by simp
    have bl: "butlast pre = ys" "last pre = y" using ys by simp_all
    have eq: "splitPartsToHeaderAndBody ?parts =
       (case combineDisplayParts ys of Inl e \<Rightarrow> Inl e
        | Inr h \<Rightarrow>
            if indexOf ?s newline = - 1
            then finishSplit (h @ ?s) (Code t # post)
            else finishSplit (h @ take (nat (indexOf ?s newline)) ?s)
                   (set_text (drop (nat (indexOf ?s newline + 1)) ?s) y # Code t # post))"
      unfolding splitPartsToHeaderAndBody_def Let_def idx
      by (simp only: nat_int at is_code.simps if_True i1 if_False tk nth dr0 dr1
          cloneDisplayParts_def list.map_ident list.case) (simp split: sum.split)
    have st: "part_text (set_text s y) = s" for s
      by (cases y) simp_all
    show ?thesis
    proof (cases "includes_char ?s newline")
      case False
      then have i: "indexOf ?s newline = - 1"
        by (simp add: indexOf_none)
      have tw: "takeWhile (\<lambda>c. c \<noteq> newline) ?s = ?s"
          "dropWhile (\<lambda>c. c \<noteq> newline) ?s = []"
        using False by (auto simp: includes_char_def)
      show ?thesis
        using \<open>pre \<noteq> []\<close> ne unfolding eq bl i tw
        by (simp add: finishSplit_def split: sum.split)
    next
      case True
      let ?k = "length (takeWhile (\<lambda>c. c \<noteq> newline) ?s)"
      have i: "indexOf ?s newline = int ?k"
        using True by (rule indexOf_takeWhile)
      have tw: "take ?k ?s = takeWhile (\<lambda>c. c \<noteq> newline) ?s"
        by (rule takeWhile_eq_take [symmetric])
      have dw: "drop (Suc ?k) ?s = drop 1 (dropWhile (\<lambda>c. c \<noteq> newline) ?s)"
        by (simp add: dropWhile_eq_drop)
      show ?thesis
        using \<open>pre \<noteq> []\<close> unfolding eq bl i
        by (simp add: finishSplit_def st tw dw nat_add_distrib split: sum.split)
    qed
  qed
qed

text \<open>
  Claim C6, amended: the function splits at the first newline. When the first text or code
  part that holds a newline is a text part, the header is the trimmed string of the parts
  before it combined and of its text before its first newline, and the body is the rest of
  its text after that newline (left out when empty) followed by the later parts; so
  \<^verbatim>\<open>[text:"Line1\nLine2"]\<close> splits into the header \<^verbatim>\<open>Line1\<close> and the body \<^verbatim>\<open>[text:"Line2"]\<close>. When
  it is a code part, the code part is not divided: with nothing before it the header is
  empty and the body is the whole list; otherwise the split is in the part before it, at
  the first newline of that part's text or at its end, and what the header takes from that
  part is its text. When no text or code part holds a newline, the header is
  \<^verbatim>\<open>combineDisplayParts\<close> of the whole list, untrimmed, and the body is empty. When some text
  or code part holds a newline, the header returned is trimmed. The function raises only
  where \<^verbatim>\<open>combineDisplayParts\<close> does.
\<close>

theorem split_first_newline:
  "splitPartsToHeaderAndBody [Text ''Line1\<newline>Line2''] =
     Inr \<lparr>header = ''Line1'', body = [Text ''Line2'']\<rparr> \<and>
   (\<not> list_ex hasNewline parts \<longrightarrow>
      splitPartsToHeaderAndBody parts =
        (case combineDisplayParts parts of
           Inl e \<Rightarrow> Inl e
         | Inr h \<Rightarrow> Inr \<lparr>header = h, body = []\<rparr>)) \<and>
   (list_ex hasNewline parts \<and> splitPartsToHeaderAndBody parts = Inr r \<longrightarrow>
      trim (header r) = header r) \<and>
   (\<not> list_ex hasNewline pre \<and> \<not> includes_char a newline \<longrightarrow>
      splitPartsToHeaderAndBody (pre @ Text (a @ newline # b) # post) =
        (case combineDisplayParts pre of
           Inl e \<Rightarrow> Inl e
         | Inr h \<Rightarrow>
             Inr \<lparr>header = trim (h @ a),
                  body = (if b = [] then post else Text b # post)\<rparr>)) \<and>
   (\<not> list_ex hasNewline ys \<and> includes_char t newline \<longrightarrow>
      splitPartsToHeaderAndBody (ys @ Code t # zs) =
        (if ys = [] then Inr \<lparr>header = [], body = Code t # zs\<rparr>
         else case combineDisplayParts (butlast ys) of
                Inl e \<Rightarrow> Inl e
              | Inr h \<Rightarrow>
                  Inr \<lparr>header = trim (h @ takeWhile (\<lambda>c. c \<noteq> newline) (part_text (last ys))),
                       body =
                         (if drop 1 (dropWhile (\<lambda>c. c \<noteq> newline) (part_text (last ys))) = []
                          then Code t # zs
                          else set_text
                                 (drop 1 (dropWhile (\<lambda>c. c \<noteq> newline) (part_text (last ys))))
                                 (last ys) # Code t # zs)\<rparr>))"
proof -
  have a: "\<not> list_ex hasNewline parts \<longrightarrow>
      splitPartsToHeaderAndBody parts =
        (case combineDisplayParts parts of
           Inl e \<Rightarrow> Inl e
         | Inr h \<Rightarrow> Inr \<lparr>header = h, body = []\<rparr>)"
    using split_no_newline [of parts] by (simp add: list_ex_iff)
  have b: "list_ex hasNewline parts \<and> splitPartsToHeaderAndBody parts = Inr r \<longrightarrow>
      trim (header r) = header r"
    using split_trimmed [of parts r] by (auto simp: list_ex_iff findIndex_none)
  have c: "\<not> list_ex hasNewline pre \<and> \<not> includes_char a newline \<longrightarrow>
      splitPartsToHeaderAndBody (pre @ Text (a @ newline # b) # post) =
        (case combineDisplayParts pre of
           Inl e \<Rightarrow> Inl e
         | Inr h \<Rightarrow>
             Inr \<lparr>header = trim (h @ a),
                  body = (if b = [] then post else Text b # post)\<rparr>)"
    using split_text_part [of pre a b post] by blast
  have d: "\<not> list_ex hasNewline ys \<and> includes_char t newline \<longrightarrow>
      splitPartsToHeaderAndBody (ys @ Code t # zs) =
        (if ys = [] then Inr \<lparr>header = [], body = Code t # zs\<rparr>
         else case combineDisplayParts (butlast ys) of
                Inl e \<Rightarrow> Inl e
              | Inr h \<Rightarrow>
                  Inr \<lparr>header = trim (h @ takeWhile (\<lambda>c. c \<noteq> newline) (part_text (last ys))),
                       body =
                         (if drop 1 (dropWhile (\<lambda>c. c \<noteq> newline) (part_text (last ys))) = []
                          then Code t # zs
                          else set_text
                                 (drop 1 (dropWhile (\<lambda>c. c \<noteq> newline) (part_text (last ys))))
                                 (last ys) # Code t # zs)\<rparr>)"
    using split_code_part [of ys t zs] by blast
  show ?thesis
    using split_Line1_Line2 a b c d by blast
qed

theorem split_first_newline_witness:
  "list_ex hasNewline [Text '' Title \<newline>rest'', Code ''x''] \<and>
   splitPartsToHeaderAndBody [Text '' Title \<newline>rest'', Code ''x''] =
     Inr \<lparr>header = ''Title'', body = [Text ''rest'', Code ''x'']\<rparr> \<and>
   trim ''Title'' = ''Title'' \<and>
   \<not> list_ex hasNewline [Text ''Only one line''] \<and>
   splitPartsToHeaderAndBody [Text ''Only one line''] =
     Inr \<lparr>header = ''Only one line'', body = []\<rparr> \<and>
   \<not> list_ex hasNewline [Text ''  See '', InlineTag ''@link'' ''X'' None None] \<and>
   \<not> includes_char '' a'' newline \<and>
   splitPartsToHeaderAndBody
     [Text ''  See '', InlineTag ''@link'' ''X'' None None, Text ('' a'' @ newline # ''b\<newline>c''),
      Code ''x''] =
     Inr \<lparr>header = ''See {@link X} a'', body = [Text ''b\<newline>c'', Code ''x'']\<rparr> \<and>
   splitPartsToHeaderAndBody [Text (''a'' @ newline # []), Text ''z''] =
     Inr \<lparr>header = ''a'', body = [Text ''z'']\<rparr> \<and>
   includes_char ''x\<newline>y'' newline \<and>
   splitPartsToHeaderAndBody
     [Text ''Intro '', InlineTag ''@link'' ''A\<newline>B'' None None, Code ''x\<newline>y''] =
     Inr \<lparr>header = ''Intro A'',
          body = [InlineTag ''@link'' ''B'' None None, Code ''x\<newline>y'']\<rparr> \<and>
   splitPartsToHeaderAndBody [Text ''Intro '', Text ''more '', Code ''x\<newline>y'', Text ''z''] =
     Inr \<lparr>header = ''Intro more'', body = [Code ''x\<newline>y'', Text ''z'']\<rparr>"
  using split_first_newline [of "[Text ''Only one line'']"]
    split_first_newline [of "[Text '' Title \<newline>rest'', Code ''x'']"
      "\<lparr>header = ''Title'', body = [Text ''rest'', Code ''x'']\<rparr>"]
    split_first_newline [where pre = "[Text ''  See '', InlineTag ''@link'' ''X'' None None]"
      and a = "'' a''" and b = "''b\<newline>c''" and post = "[Code ''x'']"]
    split_first_newline [where pre = "[]" and a = "''a''" and b = "[]" and post = "[Text ''z'']"]
    split_first_newline [where ys = "[Text ''Intro '', InlineTag ''@link'' ''A\<newline>B'' None None]"
      and t = "''x\<newline>y''" and zs = "[]"]
    split_first_newline [where ys = "[Text ''Intro '', Text ''more '']"
      and t = "''x\<newline>y''" and zs = "[Text ''z'']"]
  by (simp add: splitPartsToHeaderAndBody_def includes_char_def newline_def indexOf_def
      cloneDisplayParts_def finishSplit_def trim_def isWhiteSpace_def)

section \<open>Rendering an indexed access type\<close>

lemma Type_toString_heap_total:
  "typeAt h a t \<Longrightarrow> height t < fuel \<Longrightarrow>
   Type_toString_heap otherToString fuel a h = Some (Inr (Type_toString otherToString t))"
proof (induction t arbitrary: fuel a)
  case (IndexedAccessType ob ix)
  obtain k where fuel: "fuel = Suc k" and hk: "height ob < k" "height ix < k"
    using IndexedAccessType.prems(2) by (cases fuel) auto
  obtain o_ref i_ref where cell: "store h a = Some (IndexedAccessTypeObj o_ref i_ref)"
      and sub: "typeAt h o_ref ob" "typeAt h i_ref ix"
    using IndexedAccessType.prems(1) by (auto split: option.splits cell.splits)
  show ?case
    using IndexedAccessType.IH(1) [OF sub(1) hk(1)] IndexedAccessType.IH(2) [OF sub(2) hk(2)] cell
    by (simp add: fuel)
next
  case (OtherType x)
  then show ?case
    by (cases fuel) auto
qed

text \<open>
  Claim C9: \<^verbatim>\<open>toString()\<close> of an indexed access type is the string of its object type, an
  opening bracket, the string of its index type and a closing bracket. On objects, the call
  returns for every type expression (with fuel above its height, whatever the references
  that hold it), and the string is the one of the expression: it depends on the structure
  alone.
\<close>

theorem IndexedAccessType_toString:
  "Type_toString otherToString (IndexedAccessType ob ix) =
     Type_toString otherToString ob @ ''['' @ Type_toString otherToString ix @ '']'' \<and>
   (typeAt h a (IndexedAccessType ob ix) \<and> height (IndexedAccessType ob ix) < fuel \<longrightarrow>
      Type_toString_heap otherToString fuel a h =
        Some (Inr (Type_toString otherToString ob @ ''['' @
                   Type_toString otherToString ix @ '']'')))"
  using Type_toString_heap_total [of h a "IndexedAccessType ob ix" fuel otherToString]
  by simp

theorem IndexedAccessType_toString_witness:
  "(let h = \<lparr>store = [0 \<mapsto> OtherTypeObj ''T'', 1 \<mapsto> OtherTypeObj ''K'',
                      2 \<mapsto> IndexedAccessTypeObj 0 1, 3 \<mapsto> OtherTypeObj ''J'',
                      4 \<mapsto> IndexedAccessTypeObj 2 3],
              fresh = 5\<rparr>;
        t = IndexedAccessType (IndexedAccessType (OtherType ''T'') (OtherType ''K''))
              (OtherType ''J'')
    in typeAt h 4 t \<and> height t < 3 \<and>
       Type_toString_heap (\<lambda>x. x) 3 4 h = Some (Inr ''T[K][J]'') \<and>
       Type_toString (\<lambda>x. x) t = ''T[K][J]'')"
  using IndexedAccessType_toString [of "\<lambda>x. x"
      "IndexedAccessType (OtherType ''T'') (OtherType ''K'')" "OtherType ''J''"
      "\<lparr>store = [0 \<mapsto> OtherTypeObj ''T'', 1 \<mapsto> OtherTypeObj ''K'',
                 2 \<mapsto> IndexedAccessTypeObj 0 1, 3 \<mapsto> OtherTypeObj ''J'',
                 4 \<mapsto> IndexedAccessTypeObj 2 3],
         fresh = 5\<rparr>" 4 3]
  by (simp add: Let_def)

section \<open>Rendering inline tags\<close>

lemma displayPartsToMarkdown_append:
  "displayPartsToMarkdown u c h (xs @ ys) =
   displayPartsToMarkdown u c h xs @ displayPartsToMarkdown u c h ys"
  by (simp add: displayPartsToMarkdown_def)

lemma displayPartsToMarkdown_Cons:
  "displayPartsToMarkdown u c h (p # ys) =
   concat (markdownOfPart u c h p) @ displayPartsToMarkdown u c h ys"
  by (simp add: displayPartsToMarkdown_def)

text \<open>
  Claim C7: what \<^verbatim>\<open>displayPartsToMarkdown\<close> puts in the place of an inline tag, between the
  renderings of the parts before and after it. A target is resolvable when it gives a
  non-empty url: a non-empty string, or a reflection that \<^verbatim>\<open>urlTo\<close> maps to a non-empty
  string. With a resolvable target \<^verbatim>\<open>@linkcode\<close> shows its text in code formatting
  (\<^verbatim>\<open><code>\<close> in HTML, backticks in markdown) inside the link, \<^verbatim>\<open>@link\<close> and \<^verbatim>\<open>@linkplain\<close>
  show it bare. A link tag with no target renders its raw text. \<^verbatim>\<open>@label\<close> and
  \<^verbatim>\<open>@inheritdoc\<close> render to nothing. Every other tag renders as \<^verbatim>\<open>{@tag text}\<close>. The function
  has no failing branch.
\<close>

theorem markdown_inline_tags:
  "(tg = ''@linkcode'' \<and> linkUrl urlTo tgt = Some url \<and> url \<noteq> [] \<longrightarrow>
      displayPartsToMarkdown urlTo classString useHtml
        (pre @ InlineTag tg t (Some tgt) lt # post) =
        displayPartsToMarkdown urlTo classString useHtml pre @
        (if useHtml then
           ''<a href='' @ dquote @ url @ dquote @
           classAttribute (linkKindClass classString tgt) @
           ''><code>'' @ t @ ''</code></a>''
         else ''['' @ backtick @ t @ backtick @ '']('' @ url @ '')'') @
        displayPartsToMarkdown urlTo classString useHtml post) \<and>
   ((tg = ''@link'' \<or> tg = ''@linkplain'') \<and> linkUrl urlTo tgt = Some url \<and> url \<noteq> [] \<longrightarrow>
      displayPartsToMarkdown urlTo classString useHtml
        (pre @ InlineTag tg t (Some tgt) lt # post) =
        displayPartsToMarkdown urlTo classString useHtml pre @
        (if useHtml then
           ''<a href='' @ dquote @ url @ dquote @
           classAttribute (linkKindClass classString tgt) @
           ''>'' @ t @ ''</a>''
         else ''['' @ t @ '']('' @ url @ '')'') @
        displayPartsToMarkdown urlTo classString useHtml post) \<and>
   (tg = ''@link'' \<or> tg = ''@linkcode'' \<or> tg = ''@linkplain'' \<longrightarrow>
      displayPartsToMarkdown urlTo classString useHtml
        (pre @ InlineTag tg t None lt # post) =
        displayPartsToMarkdown urlTo classString useHtml pre @ t @
        displayPartsToMarkdown urlTo classString useHtml post) \<and>
   (tg = ''@label'' \<or> tg = ''@inheritdoc'' \<longrightarrow>
      displayPartsToMarkdown urlTo classString useHtml
        (pre @ InlineTag tg t target lt # post) =
        displayPartsToMarkdown urlTo classString useHtml pre @
        displayPartsToMarkdown urlTo classString useHtml post) \<and>
   (tg \<notin> set [''@label'', ''@inheritdoc'', ''@link'', ''@linkcode'', ''@linkplain''] \<longrightarrow>
      displayPartsToMarkdown urlTo classString useHtml
        (pre @ InlineTag tg t target lt # post) =
        displayPartsToMarkdown urlTo classString useHtml pre @
        ''{'' @ tg @ '' '' @ t @ ''}'' @
        displayPartsToMarkdown urlTo classString useHtml post)"
proof -
  have truthy: "targetTruthy (Some tgt)" if "linkUrl urlTo tgt = Some url" "url \<noteq> []"
    using that by (cases tgt) auto
  show ?thesis
    by (auto simp: displayPartsToMarkdown_append displayPartsToMarkdown_Cons renderLink_def
        truthy)
qed

theorem markdown_inline_tags_witness:
  "displayPartsToMarkdown (\<lambda>r. refl_fullName r @ ''.html'') (\<lambda>k. ''tsd-kind-class'') False
     [Text ''See '', InlineTag ''@linkcode'' ''f'' (Some (TargetString ''https://x.dev'')) None,
      Text ''.''] =
     ''See ['' @ backtick @ ''f'' @ backtick @ ''](https://x.dev).'' \<and>
   displayPartsToMarkdown (\<lambda>r. refl_fullName r @ ''.html'') (\<lambda>k. ''tsd-kind-class'') True
     [Text ''See '', InlineTag ''@linkcode'' ''f'' (Some (TargetString ''https://x.dev'')) None,
      Text ''.''] =
     ''See <a href='' @ dquote @ ''https://x.dev'' @ dquote @ ''><code>f</code></a>.'' \<and>
   displayPartsToMarkdown (\<lambda>r. refl_fullName r @ ''.html'') (\<lambda>k. ''tsd-kind-class'') True
     [InlineTag ''@link'' ''A''
        (Some (TargetReflection \<lparr>refl_id = 7, refl_kind = 128, refl_fullName = ''A''\<rparr>)) None] =
     ''<a href='' @ dquote @ ''A.html'' @ dquote @ '' class='' @ dquote @ ''tsd-kind-class'' @
     dquote @ ''>A</a>'' \<and>
   displayPartsToMarkdown (\<lambda>r. refl_fullName r @ ''.html'') (\<lambda>k. ''tsd-kind-class'') False
     [InlineTag ''@linkcode'' ''raw'' None None] = ''raw'' \<and>
   displayPartsToMarkdown (\<lambda>r. refl_fullName r @ ''.html'') (\<lambda>k. ''tsd-kind-class'') False
     [Text ''a'', InlineTag ''@label'' ''L'' None None, Text ''b''] = ''ab'' \<and>
   displayPartsToMarkdown (\<lambda>r. refl_fullName r @ ''.html'') (\<lambda>k. ''tsd-kind-class'') False
     [InlineTag ''@custom'' ''x y'' None None] = ''{@custom x y}''"
  using
    markdown_inline_tags [where tg = "''@linkcode''" and urlTo = "\<lambda>r. refl_fullName r @ ''.html''"
      and tgt = "TargetString ''https://x.dev''" and url = "''https://x.dev''"
      and classString = "\<lambda>k. ''tsd-kind-class''" and useHtml = False
      and pre = "[Text ''See '']" and t = "''f''" and lt = None and post = "[Text ''.'']"]
    markdown_inline_tags [where tg = "''@linkcode''" and urlTo = "\<lambda>r. refl_fullName r @ ''.html''"
      and tgt = "TargetString ''https://x.dev''" and url = "''https://x.dev''"
      and classString = "\<lambda>k. ''tsd-kind-class''" and useHtml = True
      and pre = "[Text ''See '']" and t = "''f''" and lt = None and post = "[Text ''.'']"]
    markdown_inline_tags [where tg = "''@link''" and urlTo = "\<lambda>r. refl_fullName r @ ''.html''"
      and tgt = "TargetReflection \<lparr>refl_id = 7, refl_kind = 128, refl_fullName = ''A''\<rparr>"
      and url = "''A.html''"
      and classString = "\<lambda>k. ''tsd-kind-class''" and useHtml = True
      and pre = "[]" and t = "''A''" and lt = None and post = "[]"]
    markdown_inline_tags [where tg = "''@linkcode''" and urlTo = "\<lambda>r. refl_fullName r @ ''.html''"
      and classString = "\<lambda>k. ''tsd-kind-class''" and useHtml = False
      and pre = "[]" and t = "''raw''" and lt = None and post = "[]"]
    markdown_inline_tags [where tg = "''@label''" and urlTo = "\<lambda>r. refl_fullName r @ ''.html''"
      and classString = "\<lambda>k. ''tsd-kind-class''" and useHtml = False
      and pre = "[Text ''a'']" and t = "''L''" and lt = None and post = "[Text ''b'']"
      and target = None]
    markdown_inline_tags [where tg = "''@custom''" and urlTo = "\<lambda>r. refl_fullName r @ ''.html''"
      and classString = "\<lambda>k. ''tsd-kind-class''" and useHtml = False
      and pre = "[]" and t = "''x y''" and lt = None and post = "[]" and target = None]
  by (simp add: displayPartsToMarkdown_def)

section \<open>Wire shapes\<close>

lemma map_raising_length: "map_raising f xs = Inr ys \<Longrightarrow> length ys = length xs"
  by (induction xs arbitrary: ys) (auto split: sum.splits)

lemma map_raising_nth:
  "map_raising f xs = Inr ys \<Longrightarrow> i < length xs \<Longrightarrow> f (xs ! i) = Inr (ys ! i)"
proof (induction xs arbitrary: ys i)
  case Nil
  then show ?case by simp
next
  case (Cons x xs)
  then show ?case
    by (cases i) (auto split: sum.splits)
qed

lemma map_raising_total:
  "\<forall>x\<in>set xs. \<exists>y. f x = Inr y \<Longrightarrow> \<exists>ys. map_raising f xs = Inr ys"
  by (induction xs) (auto split: sum.splits)

lemma serializePart_total: "linkTargetSet p \<Longrightarrow> \<exists>obj. serializePart f p = Inr obj"
  by (cases "(f, p)" rule: serializePart.cases) auto

text \<open>
  Claim C5: on a list whose relative links all have their target, \<^verbatim>\<open>serializeDisplayParts\<close>
  returns a list of the same length, and at every index the target has the wire shape of
  its kind: the reflection's \<^verbatim>\<open>id\<close> for an inline tag that targets a reflection, the string
  itself for a string target, the symbol identifier's own payload for a symbol identifier,
  \<^verbatim>\<open>{media: n}\<close> for a relative link with a numeric target, and \<^verbatim>\<open>{reflection: id}\<close> for a
  relative link that targets a reflection.
\<close>

theorem serialize_wire_shapes:
  assumes "list_all linkTargetSet parts"
  shows "\<exists>objs. serializeDisplayParts symToObject parts = Inr objs \<and>
    length objs = length parts \<and>
    (\<forall>i<length parts.
      (\<forall>tg t lt r. parts ! i = InlineTag tg t (Some (TargetReflection r)) lt \<longrightarrow>
          objs ! i = JInlineTag tg t (Some (JNumber (refl_id r))) lt) \<and>
      (\<forall>tg t lt s. parts ! i = InlineTag tg t (Some (TargetString s)) lt \<longrightarrow>
          objs ! i = JInlineTag tg t (Some (JString s)) lt) \<and>
      (\<forall>tg t lt sid. parts ! i = InlineTag tg t (Some (TargetSymbolId sid)) lt \<longrightarrow>
          objs ! i = JInlineTag tg t (Some (JSymbolId (symToObject sid))) lt) \<and>
      (\<forall>t n. parts ! i = RelativeLink t (Some (LinkMedia n)) \<longrightarrow>
          objs ! i = JRelativeLink t (JMedia n)) \<and>
      (\<forall>t r. parts ! i = RelativeLink t (Some (LinkReflection r)) \<longrightarrow>
          objs ! i = JRelativeLink t (JReflection (refl_id r))))"
proof -
  have "\<forall>p\<in>set parts. \<exists>obj. serializePart symToObject p = Inr obj"
    using assms serializePart_total by (auto simp: list_all_iff)
  then obtain objs where objs: "serializeDisplayParts symToObject parts = Inr objs"
    unfolding serializeDisplayParts_def using map_raising_total by blast
  have len: "length objs = length parts"
    using objs map_raising_length unfolding serializeDisplayParts_def by blast
  have nth: "serializePart symToObject (parts ! i) = Inr (objs ! i)" if "i < length parts" for i
    using objs that map_raising_nth unfolding serializeDisplayParts_def by blast
  show ?thesis
  proof (intro exI conjI allI impI)
    show "serializeDisplayParts symToObject parts = Inr objs" by (rule objs)
    show "length objs = length parts" by (rule len)
  qed (use nth in \<open>fastforce+\<close>)
qed

theorem serialize_wire_shapes_witness:
  "list_all linkTargetSet
     [InlineTag ''@link'' ''A''
        (Some (TargetReflection \<lparr>refl_id = 7, refl_kind = 128, refl_fullName = ''A''\<rparr>)) None,
      InlineTag ''@link'' ''site'' (Some (TargetString ''https://x.dev'')) None,
      InlineTag ''@link'' ''B'' (Some (TargetSymbolId (''b.ts'', ''B''))) (Some ''B''),
      RelativeLink ''./a.png'' (Some (LinkMedia 3)),
      RelativeLink ''./a.md''
        (Some (LinkReflection \<lparr>refl_id = 7, refl_kind = 128, refl_fullName = ''A''\<rparr>))] \<and>
   (\<exists>objs. serializeDisplayParts (\<lambda>sid. fst sid @ '':'' @ snd sid)
     [InlineTag ''@link'' ''A''
        (Some (TargetReflection \<lparr>refl_id = 7, refl_kind = 128, refl_fullName = ''A''\<rparr>)) None,
      InlineTag ''@link'' ''site'' (Some (TargetString ''https://x.dev'')) None,
      InlineTag ''@link'' ''B'' (Some (TargetSymbolId (''b.ts'', ''B''))) (Some ''B''),
      RelativeLink ''./a.png'' (Some (LinkMedia 3)),
      RelativeLink ''./a.md''
        (Some (LinkReflection \<lparr>refl_id = 7, refl_kind = 128, refl_fullName = ''A''\<rparr>))] =
        Inr objs \<and>
      length objs = 5 \<and>
      objs ! 0 = JInlineTag ''@link'' ''A'' (Some (JNumber 7)) None \<and>
      objs ! 1 = JInlineTag ''@link'' ''site'' (Some (JString ''https://x.dev'')) None \<and>
      objs ! 2 = JInlineTag ''@link'' ''B'' (Some (JSymbolId ''b.ts:B'')) (Some ''B'') \<and>
      objs ! 3 = JRelativeLink ''./a.png'' (JMedia 3) \<and>
      objs ! 4 = JRelativeLink ''./a.md'' (JReflection 7))"
proof -
  let ?r = "\<lparr>refl_id = 7, refl_kind = 128, refl_fullName = ''A''\<rparr>"
  let ?parts = "[InlineTag ''@link'' ''A'' (Some (TargetReflection ?r)) None,
      InlineTag ''@link'' ''site'' (Some (TargetString ''https://x.dev'')) None,
      InlineTag ''@link'' ''B'' (Some (TargetSymbolId (''b.ts'', ''B''))) (Some ''B''),
      RelativeLink ''./a.png'' (Some (LinkMedia 3)),
      RelativeLink ''./a.md'' (Some (LinkReflection ?r))]"
  have typed: "list_all linkTargetSet ?parts" by simp
  from serialize_wire_shapes [OF typed, of "\<lambda>sid. fst sid @ '':'' @ snd sid"]
  obtain objs where objs: "serializeDisplayParts (\<lambda>sid. fst sid @ '':'' @ snd sid) ?parts = Inr objs"
    and len: "length objs = length ?parts"
    and shape: "\<forall>i<length ?parts.
      (\<forall>tg t lt r. ?parts ! i = InlineTag tg t (Some (TargetReflection r)) lt \<longrightarrow>
          objs ! i = JInlineTag tg t (Some (JNumber (refl_id r))) lt) \<and>
      (\<forall>tg t lt s. ?parts ! i = InlineTag tg t (Some (TargetString s)) lt \<longrightarrow>
          objs ! i = JInlineTag tg t (Some (JString s)) lt) \<and>
      (\<forall>tg t lt sid. ?parts ! i = InlineTag tg t (Some (TargetSymbolId sid)) lt \<longrightarrow>
          objs ! i = JInlineTag tg t (Some (JSymbolId (fst sid @ '':'' @ snd sid))) lt) \<and>
      (\<forall>t n. ?parts ! i = RelativeLink t (Some (LinkMedia n)) \<longrightarrow>
          objs ! i = JRelativeLink t (JMedia n)) \<and>
      (\<forall>t r. ?parts ! i = RelativeLink t (Some (LinkReflection r)) \<longrightarrow>
          objs ! i = JRelativeLink t (JReflection (refl_id r)))"
    by blast
  have "objs ! 0 = JInlineTag ''@link'' ''A'' (Some (JNumber 7)) None"
    using shape [rule_format, of 0] by simp
  moreover have "objs ! 1 = JInlineTag ''@link'' ''site'' (Some (JString ''https://x.dev'')) None"
    using shape [rule_format, of 1] by simp
  moreover have "objs ! 2 = JInlineTag ''@link'' ''B'' (Some (JSymbolId ''b.ts:B'')) (Some ''B'')"
    using shape [rule_format, of 2] by simp
  moreover have "objs ! 3 = JRelativeLink ''./a.png'' (JMedia 3)"
    using shape [rule_format, of 3] by simp
  moreover have "objs ! 4 = JRelativeLink ''./a.md'' (JReflection 7)"
    using shape [rule_format, of 4] by simp
  ultimately show ?thesis
    using typed objs len by (intro conjI exI [of _ objs]) simp_all
qed

section \<open>The two phases of deserialization, part by part\<close>

lemma resolveLinks_Nil: "resolveLinks project old2new [] st = st"
  by (simp add: resolveLinks_def)

lemma resolveLinks_append:
  "resolveLinks project old2new (xs @ ys) st =
   resolveLinks project old2new ys (resolveLinks project old2new xs st)"
  by (simp add: resolveLinks_def)

lemma resolveLinks_single:
  "resolveLinks project old2new [(oldId, length before)] (before @ p # rest, w) =
   (before @ setTarget (project (remappedId old2new oldId)) p # rest,
    w @ (if project (remappedId old2new oldId) = None
         then [serialized_project_referenced_0_not_part_of_project (toString oldId)] else []))"
  by (simp add: resolveLinks_def resolveLink_def remappedId_def Let_def)

lemma resolveLinks_reviveParts:
  "reviveParts newSymbolId (length before) objs = (result, links) \<Longrightarrow>
   resolveLinks project old2new links (before @ result, w) =
     (before @ map (resolvedPart newSymbolId project old2new) objs,
      w @ concat (map (warningsOf newSymbolId project old2new) objs))"
proof (induction objs arbitrary: before result links w)
  case Nil
  then show ?case by (simp add: resolveLinks_Nil)
next
  case (Cons obj objs)
  obtain part2 pushed where rp: "revivePart newSymbolId obj = (part2, pushed)"
    by (cases "revivePart newSymbolId obj")
  obtain result' links' where rest: "reviveParts newSymbolId (Suc (length before)) objs = (result', links')"
    by (cases "reviveParts newSymbolId (Suc (length before)) objs")
  have res: "result = part2 # result'"
    and lk: "links = (case pushed of None \<Rightarrow> [] | Some oldId \<Rightarrow> [(oldId, length before)]) @ links'"
    using Cons.prems rp rest by simp_all
  have rest': "reviveParts newSymbolId (length (before @ [resolvedPart newSymbolId project old2new obj])) objs = (result', links')"
    using rest by simp
  have first: "resolveLinks project old2new
         (case pushed of None \<Rightarrow> [] | Some oldId \<Rightarrow> [(oldId, length before)])
         (before @ part2 # result', w) =
       ((before @ [resolvedPart newSymbolId project old2new obj]) @ result',
        w @ warningsOf newSymbolId project old2new obj)"
    by (cases pushed) (simp_all add: resolveLinks_Nil resolveLinks_single resolvedPart_def warningsOf_def rp)
  show ?case
    unfolding res lk resolveLinks_append first
    using Cons.IH [OF rest', of "w @ warningsOf newSymbolId project old2new obj"]
    by simp
qed

lemma reviveParts_no_links:
  assumes "reviveParts newSymbolId 0 objs = (result, [])"
  shows "result = map (resolvedPart newSymbolId project old2new) objs"
    and "concat (map (warningsOf newSymbolId project old2new) objs) = []"
  using resolveLinks_reviveParts [of newSymbolId "[]" objs result "[]" project old2new "[]"] assms
  by (simp_all add: resolveLinks_Nil)

lemma deserializeAndResolve_eq:
  "deserializeAndResolve newSymbolId project old2new objs =
     (map (resolvedPart newSymbolId project old2new) objs,
      concat (map (warningsOf newSymbolId project old2new) objs))"
proof -
  obtain result links where r: "reviveParts newSymbolId 0 objs = (result, links)"
    by (cases "reviveParts newSymbolId 0 objs")
  show ?thesis
  proof (cases "links = []")
    case True
    then show ?thesis
      using r reviveParts_no_links [of newSymbolId objs result project old2new]
      by (simp add: deserializeAndResolve_def deserializeDisplayParts_def)
  next
    case False
    then show ?thesis
      using r resolveLinks_reviveParts [of newSymbolId "[]" objs result links project old2new "[]"]
      by (simp add: deserializeAndResolve_def deserializeDisplayParts_def)
  qed
qed

text \<open>
  Claim C2: a serialized relative link \<^verbatim>\<open>{reflection: oldId}\<close> whose remapped identifier has
  no reflection in the project. Deserialization has no failing branch; after the callback
  the part at the link's index is a relative link with its text and no target; and the
  warnings logged are those of the parts before it, then one warning that names
  \<^verbatim>\<open>oldId.toString()\<close>, then those of the parts after it.
\<close>

theorem dangling_reference_warns_once:
  assumes "project (remappedId old2new oldId) = None"
  shows "fst (deserializeAndResolve newSymbolId project old2new
               (pre @ JRelativeLink t (JReflection oldId) # post)) ! length pre =
           RelativeLink t None \<and>
         snd (deserializeAndResolve newSymbolId project old2new
               (pre @ JRelativeLink t (JReflection oldId) # post)) =
           snd (deserializeAndResolve newSymbolId project old2new pre) @
           [serialized_project_referenced_0_not_part_of_project (toString oldId)] @
           snd (deserializeAndResolve newSymbolId project old2new post)"
  using assms
  by (simp add: deserializeAndResolve_eq nth_append resolvedPart_def warningsOf_def)

theorem dangling_reference_warns_once_witness:
  "Map.empty (remappedId Map.empty 999) = (None :: Reflection option) \<and>
   deserializeAndResolve (\<lambda>p :: string. p) Map.empty Map.empty
     [JText ''see '', JRelativeLink ''./x.md'' (JReflection 999), JText ''.''] =
     ([Text ''see '', RelativeLink ''./x.md'' None, Text ''.''],
      [serialized_project_referenced_0_not_part_of_project ''999''])"
proof -
  have h: "Map.empty (remappedId Map.empty 999) = (None :: Reflection option)" by simp
  have d: "digits 999 = ''999''"
    by (simp add: digits.simps)
  show ?thesis
    using dangling_reference_warns_once [OF h, where newSymbolId = "\<lambda>p :: string. p"
        and pre = "[JText ''see '']" and t = "''./x.md''" and post = "[JText ''.'']"]
    by (simp add: deserializeAndResolve_eq resolvedPart_def warningsOf_def toString_def d)
qed

section \<open>Deserialization of a comment\<close>

lemma callbacks_append:
  "foldl (runCallback project old2new) st (xs @ ys) =
   foldl (runCallback project old2new) (foldl (runCallback project old2new) st xs) ys"
  by simp

lemma update_tag_same:
  "content ((blockTags c) ! j) = ps \<Longrightarrow>
   c\<lparr>blockTags := (blockTags c)[j := (blockTags c ! j)\<lparr>content := ps\<rparr>]\<rparr> = c"
  by auto

lemma deserializeDisplayParts_summary:
  fixes newSymbolId :: "'p \<Rightarrow> 'sym"
  assumes "deserializeDisplayParts newSymbolId de SummaryParts objs = (result, de')"
  shows "\<exists>q. deferred de' = deferred de @ q \<and> oldIdToNewId de' = oldIdToNewId de \<and>
           logger de' = logger de \<and>
           (\<forall>c w. summary c = result \<longrightarrow>
              foldl (runCallback project old2new) (c, w) q =
                (c\<lparr>summary := map (resolvedPart newSymbolId project old2new) objs\<rparr>,
                 w @ concat (map (warningsOf newSymbolId project old2new) objs)))"
proof -
  obtain links where r: "reviveParts newSymbolId 0 objs = (result, links)"
    using assms by (auto simp: deserializeDisplayParts_def split: prod.splits)
  show ?thesis
  proof (cases "links = []")
    case True
    have "de' = de" using assms r True by (simp add: deserializeDisplayParts_def)
    moreover have "result = map (resolvedPart newSymbolId project old2new) objs"
      "concat (map (warningsOf newSymbolId project old2new) objs) = []"
      using reviveParts_no_links r True by blast+
    ultimately show ?thesis
      by (intro exI [of _ "[]"]) simp
  next
    case False
    have de': "de' = de\<lparr>deferred := deferred de @ [(SummaryParts, links)]\<rparr>"
      using assms r False by (simp add: deserializeDisplayParts_def)
    have "foldl (runCallback project old2new) (c, w) [(SummaryParts, links)] =
                (c\<lparr>summary := map (resolvedPart newSymbolId project old2new) objs\<rparr>,
                 w @ concat (map (warningsOf newSymbolId project old2new) objs))"
      if "summary c = result" for c :: "'sym Comment" and w
      using resolveLinks_reviveParts [of newSymbolId "[]" objs result links project old2new w] r that
      by (simp add: runCallback_def)
    then show ?thesis
      using de' by (intro exI [of _ "[(SummaryParts, links)]"]) simp
  qed
qed

lemma deserializeDisplayParts_tag:
  fixes newSymbolId :: "'p \<Rightarrow> 'sym"
  assumes "deserializeDisplayParts newSymbolId de (TagContent j) objs = (result, de')"
  shows "\<exists>q. deferred de' = deferred de @ q \<and> oldIdToNewId de' = oldIdToNewId de \<and>
           logger de' = logger de \<and>
           (\<forall>c w. j < length (blockTags c) \<and> content (blockTags c ! j) = result \<longrightarrow>
              foldl (runCallback project old2new) (c, w) q =
                (c\<lparr>blockTags := (blockTags c)[j := (blockTags c ! j)
                     \<lparr>content := map (resolvedPart newSymbolId project old2new) objs\<rparr>]\<rparr>,
                 w @ concat (map (warningsOf newSymbolId project old2new) objs)))"
proof -
  obtain links where r: "reviveParts newSymbolId 0 objs = (result, links)"
    using assms by (auto simp: deserializeDisplayParts_def split: prod.splits)
  show ?thesis
  proof (cases "links = []")
    case True
    have "de' = de" using assms r True by (simp add: deserializeDisplayParts_def)
    moreover have "result = map (resolvedPart newSymbolId project old2new) objs"
      "concat (map (warningsOf newSymbolId project old2new) objs) = []"
      using reviveParts_no_links r True by blast+
    ultimately show ?thesis
      by (intro exI [of _ "[]"]) (simp add: update_tag_same)
  next
    case False
    have de': "de' = de\<lparr>deferred := deferred de @ [(TagContent j, links)]\<rparr>"
      using assms r False by (simp add: deserializeDisplayParts_def)
    have "foldl (runCallback project old2new) (c, w) [(TagContent j, links)] =
                (c\<lparr>blockTags := (blockTags c)[j := (blockTags c ! j)
                     \<lparr>content := map (resolvedPart newSymbolId project old2new) objs\<rparr>]\<rparr>,
                 w @ concat (map (warningsOf newSymbolId project old2new) objs))"
      if "content (blockTags c ! j) = result" for c :: "'sym Comment" and w
      using resolveLinks_reviveParts [of newSymbolId "[]" objs result links project old2new w] r that
      by (simp add: runCallback_def)
    then show ?thesis
      using de' by (intro exI [of _ "[(TagContent j, links)]"]) simp
  qed
qed

lemma reviveTags_effect:
  fixes newSymbolId :: "'p \<Rightarrow> 'sym"
  assumes "reviveTags newSymbolId de j tagObjs = (ts, de')"
  shows "length ts = length tagObjs \<and>
         (\<exists>q. deferred de' = deferred de @ q \<and> oldIdToNewId de' = oldIdToNewId de \<and>
           logger de' = logger de \<and>
           (\<forall>(c :: 'sym Comment) w before. length before = j \<and> blockTags c = before @ ts \<longrightarrow>
              foldl (runCallback project old2new) (c, w) q =
                (c\<lparr>blockTags := before @ map (resolvedTag newSymbolId project old2new) tagObjs\<rparr>,
                 w @ concat (map (tagWarnings newSymbolId project old2new) tagObjs))))"
  using assms
proof (induction tagObjs arbitrary: de j ts de')
  case Nil
  then show ?case
    by (intro conjI exI [of _ "[]"]) auto
next
  case (Cons tagObj tagObjs)
  obtain result de1 where d: "deserializeDisplayParts newSymbolId de (TagContent j) (j_content tagObj) = (result, de1)"
    by (cases "deserializeDisplayParts newSymbolId de (TagContent j) (j_content tagObj)")
  define t where "t = \<lparr>tag = j_tag tagObj, name = j_name tagObj, content = result\<rparr>"
  obtain ts' de2 where r: "reviveTags newSymbolId de1 (Suc j) tagObjs = (ts', de2)"
    by (cases "reviveTags newSymbolId de1 (Suc j) tagObjs")
  have ts: "ts = t # ts'" and de': "de' = de2"
    using Cons.prems d r
    by (simp_all add: Deserializer_fromObject_def CommentTag_fromObject_def t_def)
  from deserializeDisplayParts_tag [OF d, of project old2new]
  obtain q1 where q1: "deferred de1 = deferred de @ q1" "oldIdToNewId de1 = oldIdToNewId de"
      "logger de1 = logger de"
      and e1: "\<And>(c :: 'sym Comment) w. j < length (blockTags c) \<Longrightarrow> content (blockTags c ! j) = result \<Longrightarrow>
              foldl (runCallback project old2new) (c, w) q1 =
                (c\<lparr>blockTags := (blockTags c)[j := (blockTags c ! j)
                     \<lparr>content := map (resolvedPart newSymbolId project old2new) (j_content tagObj)\<rparr>]\<rparr>,
                 w @ concat (map (warningsOf newSymbolId project old2new) (j_content tagObj)))"
    by blast
  from Cons.IH [OF r]
  obtain q2 where len: "length ts' = length tagObjs"
      and q2: "deferred de2 = deferred de1 @ q2" "oldIdToNewId de2 = oldIdToNewId de1"
      "logger de2 = logger de1"
      and e2: "\<And>(c :: 'sym Comment) w before. length before = Suc j \<Longrightarrow> blockTags c = before @ ts' \<Longrightarrow>
              foldl (runCallback project old2new) (c, w) q2 =
                (c\<lparr>blockTags := before @ map (resolvedTag newSymbolId project old2new) tagObjs\<rparr>,
                 w @ concat (map (tagWarnings newSymbolId project old2new) tagObjs))"
    by blast
  have eff: "foldl (runCallback project old2new) (c, w) (q1 @ q2) =
                (c\<lparr>blockTags := before @ map (resolvedTag newSymbolId project old2new) (tagObj # tagObjs)\<rparr>,
                 w @ concat (map (tagWarnings newSymbolId project old2new) (tagObj # tagObjs)))"
    if b: "length before = j" and c: "blockTags c = before @ ts" for c :: "'sym Comment" and w before
  proof -
    have j: "j < length (blockTags c)" "content (blockTags c ! j) = result"
      using b c ts by (simp_all add: nth_append t_def)
    define c1 where "c1 = c\<lparr>blockTags := (blockTags c)[j := (blockTags c ! j)
                     \<lparr>content := map (resolvedPart newSymbolId project old2new) (j_content tagObj)\<rparr>]\<rparr>"
    have bt1: "blockTags c1 = (before @ [resolvedTag newSymbolId project old2new tagObj]) @ ts'"
      using c ts unfolding c1_def b [symmetric]
      by (simp add: nth_append t_def resolvedTag_def)
    have step1: "foldl (runCallback project old2new) (c, w) q1 =
        (c1, w @ tagWarnings newSymbolId project old2new tagObj)"
      using e1 [OF j] by (simp add: c1_def tagWarnings_def)
    have step2: "foldl (runCallback project old2new) (c1, w @ tagWarnings newSymbolId project old2new tagObj) q2 =
        (c1\<lparr>blockTags := (before @ [resolvedTag newSymbolId project old2new tagObj]) @
             map (resolvedTag newSymbolId project old2new) tagObjs\<rparr>,
         (w @ tagWarnings newSymbolId project old2new tagObj) @
           concat (map (tagWarnings newSymbolId project old2new) tagObjs))"
      by (rule e2 [OF _ bt1]) (simp add: b)
    show ?thesis
      unfolding callbacks_append step1 step2 by (simp add: c1_def)
  qed
  show ?case
  proof (intro conjI exI [of _ "q1 @ q2"] allI impI)
    show "length ts = length (tagObj # tagObjs)" using ts len by simp
    show "deferred de' = deferred de @ q1 @ q2" using de' q1 q2 by simp
    show "oldIdToNewId de' = oldIdToNewId de" using de' q1 q2 by simp
    show "logger de' = logger de" using de' q1 q2 by simp
  next
    fix c :: "'sym Comment" and w before
    assume "length before = j \<and> blockTags c = before @ ts"
    then show "foldl (runCallback project old2new) (c, w) (q1 @ q2) =
                (c\<lparr>blockTags := before @ map (resolvedTag newSymbolId project old2new) (tagObj # tagObjs)\<rparr>,
                 w @ concat (map (tagWarnings newSymbolId project old2new) (tagObj # tagObjs)))"
      using eff by blast
  qed
qed

lemma deserializeComment_eq:
  fixes newSymbolId :: "'p \<Rightarrow> 'sym"
  shows "deserializeComment newSymbolId project old2new obj =
    (\<lparr>summary = map (resolvedPart newSymbolId project old2new) (j_summary obj),
      blockTags = map (resolvedTag newSymbolId project old2new)
                    (case j_blockTags obj of None \<Rightarrow> [] | Some tagObjs \<Rightarrow> tagObjs),
      modifierTags = new_Set (case j_modifierTags obj of None \<Rightarrow> [] | Some ms \<Rightarrow> ms),
      label = j_label obj, sourcePath = None, discoveryId = None\<rparr>,
     \<lparr>oldIdToNewId = old2new, deferred = [],
      logger = concat (map (warningsOf newSymbolId project old2new) (j_summary obj)) @
               concat (map (tagWarnings newSymbolId project old2new)
                    (case j_blockTags obj of None \<Rightarrow> [] | Some tagObjs \<Rightarrow> tagObjs))\<rparr>)"
proof -
  define de0 :: "owner Deserializer" where "de0 = \<lparr>oldIdToNewId = old2new, deferred = [], logger = []\<rparr>"
  define tagObjs where "tagObjs = (case j_blockTags obj of None \<Rightarrow> [] | Some tagObjs \<Rightarrow> tagObjs)"
  define ms where "ms = new_Set (case j_modifierTags obj of None \<Rightarrow> [] | Some ms \<Rightarrow> ms)"
  obtain s de1 where d: "deserializeDisplayParts newSymbolId de0 SummaryParts (j_summary obj) = (s, de1)"
    by (cases "deserializeDisplayParts newSymbolId de0 SummaryParts (j_summary obj)")
  obtain bt de2 where r: "reviveTags newSymbolId de1 0 tagObjs = (bt, de2)"
    by (cases "reviveTags newSymbolId de1 0 tagObjs")
  have r': "(case j_blockTags obj of None \<Rightarrow> ([], de1)
                 | Some tagObjs \<Rightarrow> reviveTags newSymbolId de1 0 tagObjs) = (bt, de2)"
    using r by (simp add: tagObjs_def split: option.splits)
  define c0 :: "'sym Comment" where "c0 = \<lparr>summary = s, blockTags = bt, modifierTags = ms, label = j_label obj,
      sourcePath = None, discoveryId = None\<rparr>"
  have new: "Comment_new [] [] [] = (\<lparr>summary = [], blockTags = [], modifierTags = [], label = None,
      sourcePath = None, discoveryId = None\<rparr> :: 'sym Comment)"
    by (simp add: Comment_new_def extractLabelTag_def)
  have fromObj: "Comment_fromObject newSymbolId de0 (Comment_new [] [] []) obj = (c0, de2)"
    by (simp add: Comment_fromObject_def d r' new c0_def ms_def)
  from deserializeDisplayParts_summary [OF d, of project old2new]
  obtain q1 where q1: "deferred de1 = deferred de0 @ q1" "oldIdToNewId de1 = oldIdToNewId de0"
      "logger de1 = logger de0"
      and e1: "\<And>(c :: 'sym Comment) w. summary c = s \<Longrightarrow>
              foldl (runCallback project old2new) (c, w) q1 =
                (c\<lparr>summary := map (resolvedPart newSymbolId project old2new) (j_summary obj)\<rparr>,
                 w @ concat (map (warningsOf newSymbolId project old2new) (j_summary obj)))"
    by blast
  from reviveTags_effect [OF r, of project old2new]
  obtain q2 where q2: "deferred de2 = deferred de1 @ q2" "oldIdToNewId de2 = oldIdToNewId de1"
      "logger de2 = logger de1"
      and e2: "\<And>(c :: 'sym Comment) w before. length before = 0 \<Longrightarrow> blockTags c = before @ bt \<Longrightarrow>
              foldl (runCallback project old2new) (c, w) q2 =
                (c\<lparr>blockTags := before @ map (resolvedTag newSymbolId project old2new) tagObjs\<rparr>,
                 w @ concat (map (tagWarnings newSymbolId project old2new) tagObjs))"
    by blast
  have de2: "deferred de2 = q1 @ q2" "oldIdToNewId de2 = old2new" "logger de2 = []"
    using q1 q2 by (simp_all add: de0_def)
  define c1 where "c1 = c0\<lparr>summary := map (resolvedPart newSymbolId project old2new) (j_summary obj)\<rparr>"
  have step1: "foldl (runCallback project old2new) (c0, []) q1 =
      (c1, concat (map (warningsOf newSymbolId project old2new) (j_summary obj)))"
    using e1 [of c0 "[]"] by (simp add: c0_def c1_def)
  have step2: "foldl (runCallback project old2new) (c1, w) q2 =
      (c1\<lparr>blockTags := map (resolvedTag newSymbolId project old2new) tagObjs\<rparr>,
        w @ concat (map (tagWarnings newSymbolId project old2new) tagObjs))" for w
    using e2 [of "[]" c1 w] by (simp add: c0_def c1_def)
  have "runDeferred project de2 c0 =
     (c1\<lparr>blockTags := map (resolvedTag newSymbolId project old2new) tagObjs\<rparr>,
      de2\<lparr>deferred := [], logger := concat (map (warningsOf newSymbolId project old2new) (j_summary obj)) @
               concat (map (tagWarnings newSymbolId project old2new) tagObjs)\<rparr>)"
    unfolding runDeferred_def de2 callbacks_append step1 step2 by simp
  moreover have "de2\<lparr>deferred := [], logger := l\<rparr> = \<lparr>oldIdToNewId = old2new, deferred = [], logger = l\<rparr>" for l
    using de2 by (cases de2) simp
  ultimately show ?thesis
    unfolding deserializeComment_def de0_def [symmetric] fromObj
    by (simp add: c1_def c0_def tagObjs_def ms_def)
qed

lemma fst_reviveParts: "fst (reviveParts newSymbolId i objs) = map (\<lambda>obj. fst (revivePart newSymbolId obj)) objs"
proof (induction objs arbitrary: i)
  case Nil
  then show ?case by simp
next
  case (Cons obj objs)
  show ?case
    using Cons.IH [of "Suc i"]
    by (cases "reviveParts newSymbolId (Suc i) objs", cases "revivePart newSymbolId obj") auto
qed

lemma fromObject_summary:
  "summary (fst (Comment_fromObject newSymbolId de this obj)) =
     map (\<lambda>obj. fst (revivePart newSymbolId obj)) (j_summary obj)"
  and fromObject_label: "label (fst (Comment_fromObject newSymbolId de this obj)) = j_label obj"
  using fst_reviveParts [of newSymbolId 0 "j_summary obj"]
  by (auto simp: Comment_fromObject_def deserializeDisplayParts_def split: prod.splits)

lemma revive_label: "fst (revivePart newSymbolId (JInlineTag ''@label'' t target lt)) = InlineTag ''@label'' t (part_target (fst (revivePart newSymbolId (JInlineTag ''@label'' t target lt)))) lt"
  by (cases "(newSymbolId, JInlineTag ''@label'' t target lt)" rule: revivePart.cases) auto

lemma resolved_label: "\<exists>target'. resolvedPart newSymbolId project old2new (JInlineTag tg t target lt) = InlineTag tg t target' lt"
  by (cases "(newSymbolId, JInlineTag tg t target lt)" rule: revivePart.cases) (auto simp: resolvedPart_def)

text \<open>
  Claim C10: \<^verbatim>\<open>Comment.fromObject\<close> takes the label from the serialized object's \<^verbatim>\<open>label\<close>
  field and keeps an inline tag \<^verbatim>\<open>@label\<close> of the serialized summary where it is: the
  rebuilt summary has the length of the serialized one, and at the index of the serialized
  \<^verbatim>\<open>@label\<close> tag it holds an inline tag \<^verbatim>\<open>@label\<close> with the same text. Both hold right after
  \<^verbatim>\<open>fromObject\<close> and after the deferred callbacks have run.
\<close>

theorem fromObject_keeps_label_tag:
  assumes "i < length (j_summary obj)"
      and "j_summary obj ! i = JInlineTag ''@label'' t target lt"
  shows "label (fst (Comment_fromObject newSymbolId de this obj)) = j_label obj \<and>
         length (summary (fst (Comment_fromObject newSymbolId de this obj))) =
           length (j_summary obj) \<and>
         isLabelTag (summary (fst (Comment_fromObject newSymbolId de this obj)) ! i) \<and>
         part_text (summary (fst (Comment_fromObject newSymbolId de this obj)) ! i) = t \<and>
         label (fst (deserializeComment newSymbolId project old2new obj)) = j_label obj \<and>
         length (summary (fst (deserializeComment newSymbolId project old2new obj))) =
           length (j_summary obj) \<and>
         isLabelTag (summary (fst (deserializeComment newSymbolId project old2new obj)) ! i) \<and>
         part_text (summary (fst (deserializeComment newSymbolId project old2new obj)) ! i) = t"
proof -
  obtain target' where
    "resolvedPart newSymbolId project old2new (JInlineTag ''@label'' t target lt) =
       InlineTag ''@label'' t target' lt"
    using resolved_label by blast
  moreover obtain target2 where
    "fst (revivePart newSymbolId (JInlineTag ''@label'' t target lt)) =
       InlineTag ''@label'' t target2 lt"
    using revive_label by blast
  ultimately show ?thesis
    using assms by (simp add: fromObject_summary fromObject_label deserializeComment_eq)
qed

theorem fromObject_keeps_label_tag_witness:
  "deserializeComment (\<lambda>p :: string. p) Map.empty Map.empty
     \<lparr>j_summary = [JText ''See '', JInlineTag ''@label'' ''Foo'' None None],
      j_blockTags = None, j_modifierTags = None, j_label = None\<rparr> =
     (\<lparr>summary = [Text ''See '', InlineTag ''@label'' ''Foo'' None None], blockTags = [],
       modifierTags = [], label = None, sourcePath = None, discoveryId = None\<rparr>,
      \<lparr>oldIdToNewId = Map.empty, deferred = [], logger = []\<rparr>) \<and>
   isLabelTag (summary (fst (deserializeComment (\<lambda>p :: string. p) Map.empty Map.empty
     \<lparr>j_summary = [JText ''See '', JInlineTag ''@label'' ''Foo'' None None],
      j_blockTags = None, j_modifierTags = None, j_label = None\<rparr>)) ! 1) \<and>
   label (fst (deserializeComment (\<lambda>p :: string. p) Map.empty Map.empty
     \<lparr>j_summary = [JText ''See '', JInlineTag ''@label'' ''Foo'' None None],
      j_blockTags = None, j_modifierTags = None, j_label = None\<rparr>)) = None"
  using fromObject_keeps_label_tag [of 1
      "\<lparr>j_summary = [JText ''See '', JInlineTag ''@label'' ''Foo'' None None],
        j_blockTags = None, j_modifierTags = None, j_label = None\<rparr>"
      "''Foo''" None None "\<lambda>p :: string. p"
      "\<lparr>oldIdToNewId = Map.empty, deferred = [], logger = []\<rparr>" "Comment_new [] [] []"
      Map.empty Map.empty]
  by (simp add: deserializeComment_eq resolvedPart_def warningsOf_def new_Set_def)

section \<open>Round trip\<close>

lemma new_Set_acc:
  "distinct (acc @ xs) \<Longrightarrow>
   foldl (\<lambda>members x. if x \<in> set members then members else members @ [x]) acc xs = acc @ xs"
  by (induction xs arbitrary: acc) auto

lemma new_Set_distinct: "distinct xs \<Longrightarrow> new_Set xs = xs"
  using new_Set_acc [of "[]" xs] by (simp add: new_Set_def)

lemma part_roundtrip:
  assumes "linkTargetSet p"
      and "\<forall>r\<in>set (linkedReflections p). project (refl_id r) = Some r"
      and "\<forall>s\<in>set (symbolIds p). newSymbolId (symToObject s) = s"
  shows "\<exists>obj. serializePart symToObject p = Inr obj \<and>
           resolvedPart newSymbolId project Some obj = p \<and>
           warningsOf newSymbolId project Some obj = []"
  using assms
  by (cases "(symToObject, p)" rule: serializePart.cases)
     (auto simp: resolvedPart_def warningsOf_def remappedId_def split: option.splits InlineTagTarget.splits)

lemma parts_roundtrip:
  assumes "list_all linkTargetSet ps"
      and "\<forall>r\<in>set (concat (map linkedReflections ps)). project (refl_id r) = Some r"
      and "\<forall>s\<in>set (concat (map symbolIds ps)). newSymbolId (symToObject s) = s"
  shows "\<exists>objs. serializeDisplayParts symToObject ps = Inr objs \<and>
           map (resolvedPart newSymbolId project Some) objs = ps \<and>
           concat (map (warningsOf newSymbolId project Some) objs) = []"
  using assms
proof (induction ps)
  case Nil
  then show ?case by (simp add: serializeDisplayParts_def)
next
  case (Cons p ps)
  obtain obj where "serializePart symToObject p = Inr obj"
           "resolvedPart newSymbolId project Some obj = p"
           "warningsOf newSymbolId project Some obj = []"
    using part_roundtrip [of p project newSymbolId symToObject] Cons.prems by auto
  moreover obtain objs where "serializeDisplayParts symToObject ps = Inr objs"
           "map (resolvedPart newSymbolId project Some) objs = ps"
           "concat (map (warningsOf newSymbolId project Some) objs) = []"
    using Cons.IH Cons.prems by auto
  ultimately show ?case
    by (intro exI [of _ "obj # objs"]) (simp add: serializeDisplayParts_def)
qed

lemma tags_roundtrip:
  assumes "list_all linkTargetSet (concat (map content ts))"
      and "\<forall>r\<in>set (concat (map linkedReflections (concat (map content ts)))). project (refl_id r) = Some r"
      and "\<forall>s\<in>set (concat (map symbolIds (concat (map content ts)))). newSymbolId (symToObject s) = s"
  shows "\<exists>objs. map_raising (CommentTag_toObject symToObject) ts = Inr objs \<and>
           map (resolvedTag newSymbolId project Some) objs = ts \<and>
           concat (map (tagWarnings newSymbolId project Some) objs) = []"
  using assms
proof (induction ts)
  case Nil
  then show ?case by simp
next
  case (Cons t ts)
  obtain c where c: "serializeDisplayParts symToObject (content t) = Inr c"
           "map (resolvedPart newSymbolId project Some) c = content t"
           "concat (map (warningsOf newSymbolId project Some) c) = []"
    using parts_roundtrip [of "content t" project newSymbolId symToObject] Cons.prems by auto
  define obj where "obj = \<lparr>j_tag = tag t, j_name = name t, j_content = c\<rparr>"
  have obj: "CommentTag_toObject symToObject t = Inr obj"
    "resolvedTag newSymbolId project Some obj = t"
    "tagWarnings newSymbolId project Some obj = []"
    using c by (simp_all add: CommentTag_toObject_def obj_def resolvedTag_def tagWarnings_def)
  obtain objs where "map_raising (CommentTag_toObject symToObject) ts = Inr objs"
           "map (resolvedTag newSymbolId project Some) objs = ts"
           "concat (map (tagWarnings newSymbolId project Some) objs) = []"
    using Cons.IH Cons.prems by auto
  then show ?case
    using obj by (intro exI [of _ "obj # objs"]) simp
qed

text \<open>
  Claim C1: the round trip of a comment. The comment is well typed (every relative link has
  its target; the modifier set holds each tag once). The deferred callbacks run under the
  identity remapping \<open>Some\<close> of identifiers, in the project the comment was built in: every
  reflection the comment links to is the project's reflection of its \<^verbatim>\<open>id\<close>. The symbol
  identifier class, which is outside the sources, rebuilds a symbol identifier from its own
  payload. Then \<^verbatim>\<open>toObject\<close> returns, and \<^verbatim>\<open>fromObject\<close> on a fresh comment followed by the
  callbacks yields the comment itself with \<^verbatim>\<open>sourcePath\<close> and \<^verbatim>\<open>discoveryId\<close> absent; the queue
  is empty again and no warning was logged.
\<close>

theorem comment_round_trip:
  fixes c :: "'sym Comment"
  assumes typed: "list_all linkTargetSet (commentParts c)"
      and members: "distinct (modifierTags c)"
      and live: "list_all (\<lambda>r. project (refl_id r) = Some r)
                   (concat (map linkedReflections (commentParts c)))"
      and syms: "list_all (\<lambda>s. newSymbolId (symToObject s) = s)
                   (concat (map symbolIds (commentParts c)))"
  shows "\<exists>obj. Comment_toObject symToObject c = Inr obj \<and>
           deserializeComment newSymbolId project Some obj =
             (c\<lparr>sourcePath := None, discoveryId := None\<rparr>,
              \<lparr>oldIdToNewId = Some, deferred = [], logger = []\<rparr>)"
proof -
  have live': "\<forall>r\<in>set (concat (map linkedReflections (commentParts c))).
      project (refl_id r) = Some r"
    using live by (simp add: list_all_iff)
  have syms': "\<forall>s\<in>set (concat (map symbolIds (commentParts c))).
      newSymbolId (symToObject s) = s"
    using syms by (simp add: list_all_iff)
  obtain s where s: "serializeDisplayParts symToObject (summary c) = Inr s"
           "map (resolvedPart newSymbolId project Some) s = summary c"
           "concat (map (warningsOf newSymbolId project Some) s) = []"
    using parts_roundtrip [of "summary c" project newSymbolId symToObject] typed live' syms'
    by (auto simp: commentParts_def)
  obtain objs where objs: "map_raising (CommentTag_toObject symToObject) (blockTags c) = Inr objs"
           "map (resolvedTag newSymbolId project Some) objs = blockTags c"
           "concat (map (tagWarnings newSymbolId project Some) objs) = []"
    using tags_roundtrip [of "blockTags c" project newSymbolId symToObject] typed live' syms'
    by (auto simp: commentParts_def)
  define bt where "bt = (if blockTags c = [] then None else Some objs)"
  have bt: "toObjectsOptional symToObject (blockTags c) = Inr bt"
    using objs by (simp add: toObjectsOptional_def bt_def)
  have bt': "(case bt of None \<Rightarrow> [] | Some tagObjs \<Rightarrow> tagObjs) = objs"
    using objs by (auto simp: bt_def)
  define obj where "obj = \<lparr>j_summary = s, j_blockTags = bt,
       j_modifierTags = (if length (modifierTags c) > 0 then Some (modifierTags c) else None),
       j_label = label c\<rparr>"
  have to: "Comment_toObject symToObject c = Inr obj"
    using s bt by (simp add: Comment_toObject_def obj_def)
  have ms: "new_Set (case j_modifierTags obj of None \<Rightarrow> [] | Some ms \<Rightarrow> ms) = modifierTags c"
    using members new_Set_distinct [of "modifierTags c"] by (auto simp: obj_def new_Set_def)
  have "deserializeComment newSymbolId project Some obj =
             (c\<lparr>sourcePath := None, discoveryId := None\<rparr>,
              \<lparr>oldIdToNewId = Some, deferred = [], logger = []\<rparr>)"
    unfolding deserializeComment_eq ms
    using s objs bt' by (simp add: obj_def)
  then show ?thesis
    using to by blast
qed

theorem comment_round_trip_witness:
  "(let r = \<lparr>refl_id = 7, refl_kind = 128, refl_fullName = ''A''\<rparr>;
        project = [7 \<mapsto> r];
        c = \<lparr>summary =
               [Text ''See '', InlineTag ''@link'' ''A'' (Some (TargetReflection r)) None,
                RelativeLink ''./a.png'' (Some (LinkMedia 0)),
                InlineTag ''@link'' ''B'' (Some (TargetSymbolId ''b.ts:B'')) (Some ''B''),
                InlineTag ''@label'' ''second'' None None],
             blockTags =
               [\<lparr>tag = ''@returns'', name = None,
                 content = [Text ''x '', RelativeLink ''./a.md'' (Some (LinkReflection r))]\<rparr>,
                \<lparr>tag = ''@param'', name = Some ''n'', content = [Code ''n'']\<rparr>],
             modifierTags = [''@beta'', ''@internal''], label = Some ''first'',
             sourcePath = Some ''/src/a.ts'', discoveryId = Some 3\<rparr>
    in list_all linkTargetSet (commentParts c) \<and>
       distinct (modifierTags c) \<and>
       list_all (\<lambda>r. project (refl_id r) = Some r)
         (concat (map linkedReflections (commentParts c))) \<and>
       (\<exists>obj. Comment_toObject (\<lambda>s :: string. s) c = Inr obj \<and>
          deserializeComment (\<lambda>p :: string. p) project Some obj =
            (c\<lparr>sourcePath := None, discoveryId := None\<rparr>,
             \<lparr>oldIdToNewId = Some, deferred = [], logger = []\<rparr>)))"
  using comment_round_trip [of
      "\<lparr>summary =
          [Text ''See '',
           InlineTag ''@link'' ''A''
             (Some (TargetReflection \<lparr>refl_id = 7, refl_kind = 128, refl_fullName = ''A''\<rparr>)) None,
           RelativeLink ''./a.png'' (Some (LinkMedia 0)),
           InlineTag ''@link'' ''B'' (Some (TargetSymbolId ''b.ts:B'')) (Some ''B''),
           InlineTag ''@label'' ''second'' None None],
        blockTags =
          [\<lparr>tag = ''@returns'', name = None,
            content = [Text ''x '', RelativeLink ''./a.md''
              (Some (LinkReflection \<lparr>refl_id = 7, refl_kind = 128, refl_fullName = ''A''\<rparr>))]\<rparr>,
           \<lparr>tag = ''@param'', name = Some ''n'', content = [Code ''n'']\<rparr>],
        modifierTags = [''@beta'', ''@internal''], label = Some ''first'',
        sourcePath = Some ''/src/a.ts'', discoveryId = Some 3\<rparr>"
      "[7 \<mapsto> \<lparr>refl_id = 7, refl_kind = 128, refl_fullName = ''A''\<rparr>]"
      "\<lambda>p :: string. p" "\<lambda>s :: string. s"]
  by (simp add: commentParts_def Let_def)

section \<open>Clone independence\<close>

lemma extends_refl: "wf_heap h \<Longrightarrow> extends h h"
  by (simp add: extends_def)

lemma extends_trans: "extends h0 h1 \<Longrightarrow> extends h1 h2 \<Longrightarrow> extends h0 h2"
  unfolding extends_def by (metis le_trans less_le_trans)

lemma extends_wf: "extends h h' \<Longrightarrow> wf_heap h'" "extends h h' \<Longrightarrow> fresh h \<le> fresh h'"
  by (simp_all add: extends_def)

lemma extends_keeps: "extends h h' \<Longrightarrow> store h r = Some v \<Longrightarrow> store h' r = Some v"
  by (metis extends_def wf_heap_def)

lemma isPart_iff: "isPart h p = (\<exists>k t tg target lt. store h p = Some (PartObj k t tg target lt))"
  by (auto simp: isPart_def split: option.splits cell.splits)

lemma isPartsArray_iff:
  "isPartsArray h a = (\<exists>ps. store h a = Some (ArrayObj ps) \<and> list_all (isPart h) ps)"
  by (auto simp: isPartsArray_def split: option.splits cell.splits)

lemma isTag_iff:
  "isTag h t = (\<exists>tg nm c. store h t = Some (CommentTagObj tg nm c) \<and> isPartsArray h c)"
  by (auto simp: isTag_def split: option.splits cell.splits)

lemma isComment_iff:
  "isComment h a =
     (\<exists>s b m lbl sp did ts ms. store h a = Some (CommentObj s b m lbl sp did) \<and>
        isPartsArray h s \<and> store h b = Some (ArrayObj ts) \<and> list_all (isTag h) ts \<and>
        store h m = Some (SetObj ms))"
  by (auto simp: isComment_def split: option.splits cell.splits)

lemma extends_isPart: "extends h h' \<Longrightarrow> isPart h p \<Longrightarrow> isPart h' p"
  by (metis isPart_iff extends_keeps)

lemma extends_isParts: "extends h h' \<Longrightarrow> list_all (isPart h) ps \<Longrightarrow> list_all (isPart h') ps"
  by (auto simp: list_all_iff intro: extends_isPart)

lemma extends_isPartsArray: "extends h h' \<Longrightarrow> isPartsArray h a \<Longrightarrow> isPartsArray h' a"
  by (metis isPartsArray_iff extends_keeps extends_isParts)

lemma extends_isTag: "extends h h' \<Longrightarrow> isTag h t \<Longrightarrow> isTag h' t"
  by (metis isTag_iff extends_keeps extends_isPartsArray)

lemma extends_isTags: "extends h h' \<Longrightarrow> list_all (isTag h) ts \<Longrightarrow> list_all (isTag h') ts"
  by (auto simp: list_all_iff intro: extends_isTag)

lemma extends_typeAt: "extends h h' \<Longrightarrow> typeAt h a t \<Longrightarrow> typeAt h' a t"
  by (induction t arbitrary: a)
     (auto split: option.splits cell.splits dest: extends_keeps)

lemma alloc_extends:
  assumes "wf_heap h" "alloc v h = (a, h')"
  shows "extends h h'" "a = fresh h" "fresh h' = Suc (fresh h)" "store h' a = Some v"
  using assms by (fastforce simp: extends_def wf_heap_def alloc_def split: if_splits)+

lemma alloc_closed:
  assumes "closed_above n h" "alloc v h = (a, h')" "\<forall>b\<in>set (ownedRefs v). n \<le> b"
  shows "closed_above n h'"
  using assms by (fastforce simp: closed_above_def alloc_def split: if_splits)

lemma assign_closed:
  assumes "closed_above n h" "\<forall>b\<in>set (ownedRefs v). n \<le> b"
  shows "closed_above n (assign a v h)"
  using assms by (fastforce simp: closed_above_def assign_def split: if_splits)

lemma assign_wf: "wf_heap h \<Longrightarrow> a < fresh h \<Longrightarrow> wf_heap (assign a v h)"
  by (fastforce simp: wf_heap_def assign_def split: if_splits)

lemma reachable_above:
  assumes "closed_above n h" "n \<le> a"
  shows "reachable h a \<subseteq> {r. n \<le> r}"
proof
  fix r assume "r \<in> reachable h a"
  then have "(a, r) \<in> (ownedEdge h)\<^sup>*" by (simp add: reachable_def)
  then show "r \<in> {r. n \<le> r}"
    using assms by (induction rule: rtrancl_induct) (auto simp: ownedEdge_def closed_above_def)
qed

lemma extends_cells:
  assumes "extends h h'" "list_all (isPart h) ps"
  shows "map (store h') ps = map (store h) ps"
proof (rule map_ext, rule impI)
  fix p assume "p \<in> set ps"
  then obtain v where "store h p = Some v"
    using assms(2) by (auto simp: list_all_iff isPart_iff)
  then show "store h' p = store h p"
    using extends_keeps [OF assms(1)] by simp
qed

lemma partsView_cong:
  assumes "store h a = Some (ArrayObj ps)" "list_all (isPart h) ps"
      and "store h' a = store h a" "\<forall>p\<in>set ps. store h' p = store h p"
  shows "partsView h' a = partsView h a" "isPartsArray h' a"
  using assms by (auto simp: partsView_def isPartsArray_iff isPart_iff list_all_iff)

lemma extends_partsView:
  assumes "extends h h'" "isPartsArray h a"
  shows "partsView h' a = partsView h a"
proof -
  obtain ps where ps: "store h a = Some (ArrayObj ps)" "list_all (isPart h) ps"
    using assms(2) by (auto simp: isPartsArray_iff)
  show ?thesis
    using extends_keeps [OF assms(1) ps(1)] ps(1) extends_cells [OF assms(1) ps(2)]
    by (simp add: partsView_def)
qed

lemma extends_tagView:
  assumes "extends h h'" "isTag h t"
  shows "tagView h' t = tagView h t"
proof -
  obtain tg nm c where t: "store h t = Some (CommentTagObj tg nm c)" "isPartsArray h c"
    using assms(2) by (auto simp: isTag_iff)
  show ?thesis
    using extends_keeps [OF assms(1) t(1)] t(1) extends_partsView [OF assms(1) t(2)]
    by (simp add: tagView_def)
qed

lemma extends_tagViews:
  assumes "extends h h'" "list_all (isTag h) ts"
  shows "map (tagView h') ts = map (tagView h) ts"
  using assms by (auto simp: list_all_iff intro: extends_tagView)

text \<open>
  Two stores that hold the same objects from \<open>n\<close> up to \<open>fresh h\<close> hold the same arrays of
  parts and the same tags there, when the objects from \<open>n\<close> on are closed.
\<close>

lemma partsView_agree:
  assumes arr: "isPartsArray h a" and cl: "closed_above n h" and a: "n \<le> a" and wf: "wf_heap h"
      and agree: "\<forall>r. n \<le> r \<longrightarrow> r < fresh h \<longrightarrow> store h' r = store h r"
  shows "partsView h' a = partsView h a" "isPartsArray h' a"
proof -
  obtain ps where ps: "store h a = Some (ArrayObj ps)" "list_all (isPart h) ps"
    using arr by (auto simp: isPartsArray_iff)
  have "a < fresh h"
    using wf ps(1) by (auto simp: wf_heap_def)
  then have 1: "store h' a = store h a"
    using agree a by simp
  have 2: "\<forall>p\<in>set ps. store h' p = store h p"
  proof
    fix p assume p: "p \<in> set ps"
    then have "n \<le> p"
      using cl a ps(1) by (fastforce simp: closed_above_def)
    moreover have "p < fresh h"
      using wf ps(2) p by (auto simp: wf_heap_def list_all_iff isPart_iff)
    ultimately show "store h' p = store h p"
      using agree by simp
  qed
  show "partsView h' a = partsView h a" "isPartsArray h' a"
    using partsView_cong [OF ps 1 2] by simp_all
qed

lemma tagView_agree:
  assumes tag: "isTag h t" and cl: "closed_above n h" and t: "n \<le> t" and wf: "wf_heap h"
      and agree: "\<forall>r. n \<le> r \<longrightarrow> r < fresh h \<longrightarrow> store h' r = store h r"
  shows "tagView h' t = tagView h t" "isTag h' t"
proof -
  obtain tg nm c where c: "store h t = Some (CommentTagObj tg nm c)" "isPartsArray h c"
    using tag by (auto simp: isTag_iff)
  have "t < fresh h"
    using wf c(1) by (auto simp: wf_heap_def)
  then have 1: "store h' t = Some (CommentTagObj tg nm c)"
    using agree t c(1) by simp
  have "n \<le> c"
    using cl t c(1) by (fastforce simp: closed_above_def)
  note 2 = partsView_agree [OF c(2) cl this wf agree]
  show "tagView h' t = tagView h t" "isTag h' t"
    using 1 2 c(1) by (simp_all add: tagView_def isTag_iff)
qed

lemma isLabelCell_view: "isLabelCell h = (\<lambda>p. isLabelPart (store h p))"
proof
  fix p show "isLabelCell h p = isLabelPart (store h p)"
    by (cases "store h p" rule: isLabelPart.cases) (simp_all add: isLabelCell_def)
qed

lemma findIndex_map: "findIndex P (map f xs) = findIndex (\<lambda>x. P (f x)) xs"
  by (induction xs) simp_all

lemma cloneParts_ok:
  assumes "wf_heap h" "closed_above n h" "list_all (isPart h) ps"
  shows "\<exists>ps' h'. cloneParts ps h = Inr (ps', h') \<and> extends h h' \<and> closed_above n h' \<and>
           list_all (\<lambda>p. fresh h \<le> p \<and> isPart h' p) ps' \<and>
           map (store h') ps' = map (store h) ps"
  using assms
proof (induction ps arbitrary: h)
  case Nil
  then show ?case by (simp add: extends_refl)
next
  case (Cons p ps)
  from Cons.prems(3) obtain k t tg target lt where p: "store h p = Some (PartObj k t tg target lt)"
    by (auto simp: isPart_iff)
  obtain p' h1 where a: "alloc (PartObj k t tg target lt) h = (p', h1)"
    by (cases "alloc (PartObj k t tg target lt) h")
  note e1 = alloc_extends [OF Cons.prems(1) a]
  have c1: "closed_above n h1"
    using alloc_closed [OF Cons.prems(2) a] by simp
  have ps: "list_all (isPart h) ps"
    using Cons.prems(3) by simp
  have "list_all (isPart h1) ps"
    using ps extends_isParts [OF e1(1)] by simp
  from Cons.IH [OF extends_wf(1) [OF e1(1)] c1 this]
  obtain ps' h2 where r: "cloneParts ps h1 = Inr (ps', h2)" "extends h1 h2" "closed_above n h2"
      "list_all (\<lambda>p. fresh h1 \<le> p \<and> isPart h2 p) ps'"
      "map (store h2) ps' = map (store h1) ps"
    by blast
  have p2: "store h2 p' = Some (PartObj k t tg target lt)"
    using extends_keeps [OF r(2) e1(4)] .
  then have "isPart h2 p'"
    by (simp add: isPart_iff)
  moreover have "list_all (\<lambda>p. fresh h \<le> p \<and> isPart h2 p) ps'"
    using r(4) e1(3) by (auto simp: list_all_iff)
  moreover have "map (store h2) (p' # ps') = map (store h) (p # ps)"
    using p2 p r(5) extends_cells [OF e1(1) ps] by simp
  ultimately show ?case
    using p a r(1,3) e1(2) extends_trans [OF e1(1) r(2)] by simp
qed

lemma cloneDisplayParts_heap_ok:
  assumes "wf_heap h" "closed_above n h" "n \<le> fresh h" "isPartsArray h a"
  shows "\<exists>a' h'. cloneDisplayParts_heap a h = Inr (a', h') \<and> extends h h' \<and>
           closed_above n h' \<and> fresh h \<le> a' \<and> isPartsArray h' a' \<and>
           partsView h' a' = partsView h a"
proof -
  obtain ps where ps: "store h a = Some (ArrayObj ps)" "list_all (isPart h) ps"
    using assms(4) by (auto simp: isPartsArray_iff)
  from cloneParts_ok [OF assms(1,2) ps(2)]
  obtain ps' h1 where r: "cloneParts ps h = Inr (ps', h1)" "extends h h1" "closed_above n h1"
      "list_all (\<lambda>p. fresh h \<le> p \<and> isPart h1 p) ps'" "map (store h1) ps' = map (store h) ps"
    by blast
  obtain a' h' where al: "alloc (ArrayObj ps') h1 = (a', h')"
    by (cases "alloc (ArrayObj ps') h1")
  note e = alloc_extends [OF extends_wf(1) [OF r(2)] al]
  have ps1: "list_all (isPart h1) ps'"
    using r(4) by (auto simp: list_all_iff)
  have "\<forall>b\<in>set (ownedRefs (ArrayObj ps')). n \<le> b"
    using r(4) assms(3) by (fastforce simp: list_all_iff)
  then have "closed_above n h'"
    by (rule alloc_closed [OF r(3) al])
  moreover have "isPartsArray h' a'"
    using e(4) extends_isParts [OF e(1) ps1] by (auto simp: isPartsArray_iff)
  moreover have "fresh h \<le> a'"
    using e(2) extends_wf(2) [OF r(2)] by simp
  moreover have "partsView h' a' = partsView h a"
    using e(4) ps(1) extends_cells [OF e(1) ps1] r(5) by (simp add: partsView_def)
  ultimately show ?thesis
    using ps r(1) al extends_trans [OF r(2) e(1)] by (simp add: cloneDisplayParts_heap_def)
qed

lemma CommentTag_clone_ok:
  assumes "wf_heap h" "closed_above n h" "n \<le> fresh h" "isTag h t"
  shows "\<exists>t' h'. CommentTag_clone t h = Inr (t', h') \<and> extends h h' \<and>
           closed_above n h' \<and> fresh h \<le> t' \<and> isTag h' t' \<and>
           tagView h' t' = clonedTagView (tagView h t)"
proof -
  obtain tg nm c where t: "store h t = Some (CommentTagObj tg nm c)" "isPartsArray h c"
    using assms(4) by (auto simp: isTag_iff)
  from cloneDisplayParts_heap_ok [OF assms(1,2,3) t(2)]
  obtain c' h1 where r: "cloneDisplayParts_heap c h = Inr (c', h1)" "extends h h1"
      "closed_above n h1" "fresh h \<le> c'" "isPartsArray h1 c'" "partsView h1 c' = partsView h c"
    by blast
  define v :: "'a cell" where "v = CommentTagObj tg (if truthy nm then nm else None) c'"
  obtain t' h' where al: "alloc v h1 = (t', h')"
    by (cases "alloc v h1")
  note e = alloc_extends [OF extends_wf(1) [OF r(2)] al]
  have "closed_above n h'"
    using alloc_closed [OF r(3) al] r(4) assms(3) by (simp add: v_def)
  moreover have "isTag h' t'"
    using e(4) extends_isPartsArray [OF e(1) r(5)] by (auto simp: isTag_iff v_def)
  moreover have "fresh h \<le> t'"
    using e(2) extends_wf(2) [OF r(2)] by simp
  moreover have "tagView h' t' = clonedTagView (tagView h t)"
    using e(4) t(1) extends_partsView [OF e(1) r(5)] r(6)
    by (simp add: tagView_def clonedTagView_def v_def)
  ultimately show ?thesis
    using t r(1) al extends_trans [OF r(2) e(1)] by (simp add: CommentTag_clone_def v_def)
qed

lemma cloneTags_ok:
  assumes "wf_heap h" "closed_above n h" "n \<le> fresh h" "list_all (isTag h) ts"
  shows "\<exists>ts' h'. cloneTags ts h = Inr (ts', h') \<and> extends h h' \<and> closed_above n h' \<and>
           list_all (\<lambda>t. fresh h \<le> t \<and> isTag h' t) ts' \<and>
           map (tagView h') ts' = map (\<lambda>t. clonedTagView (tagView h t)) ts"
  using assms
proof (induction ts arbitrary: h)
  case Nil
  then show ?case by (simp add: extends_refl)
next
  case (Cons t ts)
  have t: "isTag h t" and ts: "list_all (isTag h) ts"
    using Cons.prems(4) by simp_all
  from CommentTag_clone_ok [OF Cons.prems(1,2,3) t]
  obtain t' h1 where r1: "CommentTag_clone t h = Inr (t', h1)" "extends h h1"
      "closed_above n h1" "fresh h \<le> t'" "isTag h1 t'"
      "tagView h1 t' = clonedTagView (tagView h t)"
    by blast
  have n1: "n \<le> fresh h1"
    using Cons.prems(3) extends_wf(2) [OF r1(2)] by simp
  from Cons.IH [OF extends_wf(1) [OF r1(2)] r1(3) n1 extends_isTags [OF r1(2) ts]]
  obtain ts' h2 where r2: "cloneTags ts h1 = Inr (ts', h2)" "extends h1 h2" "closed_above n h2"
      "list_all (\<lambda>t. fresh h1 \<le> t \<and> isTag h2 t) ts'"
      "map (tagView h2) ts' = map (\<lambda>t. clonedTagView (tagView h1 t)) ts"
    by blast
  have "isTag h2 t'"
    using extends_isTag [OF r2(2) r1(5)] .
  moreover have "list_all (\<lambda>t. fresh h \<le> t \<and> isTag h2 t) ts'"
    using r2(4) extends_wf(2) [OF r1(2)] by (auto simp: list_all_iff)
  moreover have "tagView h2 t' = clonedTagView (tagView h t)"
    using extends_tagView [OF r2(2) r1(5)] r1(6) by simp
  moreover have "map (\<lambda>t. clonedTagView (tagView h1 t)) ts =
      map (\<lambda>t. clonedTagView (tagView h t)) ts"
    using extends_tagView [OF r1(2)] ts by (auto simp: list_all_iff)
  ultimately show ?case
    using r1(1,4) r2(1,3,5) extends_trans [OF r1(2) r2(2)] by simp
qed

lemma assign_below: "n \<le> a \<Longrightarrow> r < n \<Longrightarrow> store (assign a v h) r = store h r"
  by (simp add: assign_def)

lemma assign_other: "r \<noteq> a \<Longrightarrow> store (assign a v h) r = store h r"
  by (simp add: assign_def)

lemma assign_fresh: "fresh (assign a v h) = fresh h"
  by (simp add: assign_def)

lemma assign_at: "store (assign a v h) a = Some v"
  by (simp add: assign_def)

text \<open>
  \<^verbatim>\<open>extractLabelTag\<close> on the objects: only the comment and its summary array are assigned to;
  the array loses its first inline tag \<^verbatim>\<open>@label\<close>, whose text becomes the label.
\<close>

lemma extractLabelTag_heap_ok:
  assumes wf: "wf_heap h" and cl: "closed_above n h" and c: "n \<le> c"
      and cell: "store h c = Some (CommentObj s b m lbl sp did)" and arr: "isPartsArray h s"
  shows "\<exists>h' lbl'. extractLabelTag_heap c h = Inr h' \<and> wf_heap h' \<and> fresh h' = fresh h \<and>
           closed_above n h' \<and> (\<forall>r. r \<noteq> s \<longrightarrow> r \<noteq> c \<longrightarrow> store h' r = store h r) \<and>
           store h' c = Some (CommentObj s b m lbl' sp did) \<and> isPartsArray h' s \<and>
           partsView h' s =
             (if findIndex isLabelPart (partsView h s) \<noteq> - 1
              then take (nat (findIndex isLabelPart (partsView h s))) (partsView h s) @
                   drop (nat (findIndex isLabelPart (partsView h s)) + 1) (partsView h s)
              else partsView h s) \<and>
           lbl' =
             (if findIndex isLabelPart (partsView h s) \<noteq> - 1
              then partText (partsView h s ! nat (findIndex isLabelPart (partsView h s)))
              else lbl)"
proof -
  obtain ps where ps: "store h s = Some (ArrayObj ps)" "list_all (isPart h) ps"
    using arr by (auto simp: isPartsArray_iff)
  have refs: "n \<le> s" "n \<le> b" "n \<le> m"
    using cl c cell by (auto simp: closed_above_def)
  have lt: "c < fresh h" "s < fresh h"
    using wf cell ps by (auto simp: wf_heap_def)
  have psn: "\<forall>p\<in>set ps. n \<le> p"
    using cl refs(1) ps(1) by (fastforce simp: closed_above_def)
  have sc: "s \<noteq> c"
    using cell ps(1) by auto
  have pv: "partsView h s = map (store h) ps"
    using ps(1) by (simp add: partsView_def)
  define index where "index = findIndex (isLabelCell h) ps"
  have idx: "findIndex isLabelPart (partsView h s) = index"
    by (simp add: pv findIndex_map index_def isLabelCell_view)
  show ?thesis
  proof (cases "index = - 1")
    case True
    then show ?thesis
      using cell ps wf cl arr
      by (simp add: extractLabelTag_heap_def index_def [symmetric] idx)
  next
    case False
    have rng: "nat index < length ps"
      using False findIndex_ge [of "isLabelCell h" ps] findIndex_lt [of "isLabelCell h" ps]
      by (simp add: index_def)
    then obtain k t tg target lt where p: "store h (ps ! nat index) = Some (PartObj k t tg target lt)"
      using ps(2) by (auto simp: list_all_length isPart_iff)
    define ps' where "ps' = take (nat index) ps @ drop (nat index + 1) ps"
    define h1 where "h1 = assign s (ArrayObj ps') h"
    define h2 where "h2 = assign c (CommentObj s b m (Some t) sp did) h1"
    have sub: "set ps' \<subseteq> set ps"
      by (auto simp: ps'_def dest: in_set_takeD in_set_dropD)
    have subn: "\<forall>p\<in>set ps'. n \<le> p"
      using psn sub by blast
    have r: "extractLabelTag_heap c h = Inr h2"
      using cell ps p False
      by (simp add: extractLabelTag_heap_def index_def [symmetric] h2_def h1_def ps'_def)
    have wf2: "wf_heap h2"
      unfolding h2_def h1_def using wf lt by (simp add: assign_wf assign_fresh)
    have cl2: "closed_above n h2"
      unfolding h2_def h1_def using cl subn refs by (simp add: assign_closed)
    have frame: "\<forall>r. r \<noteq> s \<longrightarrow> r \<noteq> c \<longrightarrow> store h2 r = store h r"
      by (simp add: h2_def h1_def assign_def)
    have s2: "store h2 s = Some (ArrayObj ps')"
      using sc by (simp add: h2_def h1_def assign_def)
    have same: "store h2 q = store h q" if "q \<in> set ps" for q
    proof -
      have "isPart h q"
        using ps(2) that by (simp add: list_all_iff)
      then obtain k t tg target lt where "store h q = Some (PartObj k t tg target lt)"
        by (auto simp: isPart_iff)
      then have "q \<noteq> s" "q \<noteq> c"
        using ps(1) cell by auto
      then show ?thesis
        using frame by simp
    qed
    have cells: "map (store h2) ps' = map (store h) ps'"
      using same sub by auto
    have arr2: "isPartsArray h2 s"
      using s2 ps(2) same sub by (auto simp: isPartsArray_iff list_all_iff isPart_iff)
    have "partsView h2 s = map (store h) ps'"
      using s2 cells by (simp add: partsView_def)
    then have pv2: "partsView h2 s =
        take (nat index) (partsView h s) @ drop (nat index + 1) (partsView h s)"
      unfolding pv ps'_def by (simp add: take_map drop_map)
    have lb: "partText (partsView h s ! nat index) = Some t"
      using rng p by (simp add: pv)
    have c2: "store h2 c = Some (CommentObj s b m (Some t) sp did)"
      by (simp add: h2_def assign_at)
    have f2: "fresh h2 = fresh h"
      by (simp add: h2_def h1_def assign_fresh)
    show ?thesis
      using r wf2 f2 cl2 frame c2 arr2 pv2 lb False unfolding idx by simp
  qed
qed

lemma reachable_self: "a \<in> reachable h a"
  by (simp add: reachable_def)

lemma independent_copyI:
  assumes wf: "wf_heap h" and same: "\<forall>r<fresh h. store h' r = store h r"
      and cl: "closed_above (fresh h) h'" and x: "fresh h \<le> x'"
  shows "independent_copy h x' h'"
proof -
  have old: "r < fresh h" if "r \<in> dom (store h)" for r
    using wf that by (auto simp: wf_heap_def)
  have new: "fresh h \<le> r" if "r \<in> reachable h' x'" for r
    using reachable_above [OF cl x] that by auto
  have "x' \<notin> dom (store h)"
    using old [of x'] x by auto
  moreover have "\<forall>r\<in>dom (store h). store h' r = store h r"
    using old same by blast
  moreover have "reachable h' x' \<inter> dom (store h) = {}"
    using old new by fastforce
  moreover have "\<forall>b\<in>reachable h' x'. \<forall>v. \<forall>r\<in>dom (store h). store (assign b v h') r = store h r"
    using old new same by (fastforce simp: assign_def)
  moreover have "\<forall>b\<in>dom (store h). \<forall>v. \<forall>r\<in>reachable h' x'. store (assign b v h') r = store h' r"
    using old new by (fastforce simp: assign_def)
  ultimately show ?thesis
    by (simp add: independent_copy_def)
qed

lemma extends_same: "extends h h' \<Longrightarrow> \<forall>r<fresh h. store h' r = store h r"
  by (simp add: extends_def)

lemma closed_above_start: "wf_heap h \<Longrightarrow> closed_above (fresh h) h"
  by (fastforce simp: closed_above_def wf_heap_def)

lemma isPartsArray_below: "wf_heap h \<Longrightarrow> isPartsArray h a \<Longrightarrow> a < fresh h"
  by (auto simp: isPartsArray_iff wf_heap_def)

lemma Comment_clone_ok:
  assumes wf: "wf_heap h" and x: "isComment h x"
  shows "\<exists>x' h' v. Comment_clone x h = Inr (x', h') \<and> independent_copy h x' h' \<and>
           isComment h' x' \<and> commentView h x = Some v \<and>
           commentView h' x' = Some (clonedView v)"
proof -
  let ?n = "fresh h"
  obtain s b m lbl sp did ts ms where cell: "store h x = Some (CommentObj s b m lbl sp did)"
      and s: "isPartsArray h s" and b: "store h b = Some (ArrayObj ts)" "list_all (isTag h) ts"
      and m: "store h m = Some (SetObj ms)"
    using x by (auto simp: isComment_iff)
  define v where "v = \<lparr>view_summary = partsView h s, view_blockTags = map (tagView h) ts,
      view_modifierTags = ms, view_label = lbl, view_sourcePath = sp, view_discoveryId = did\<rparr>"
  have view: "commentView h x = Some v"
    using cell b(1) m by (simp add: commentView_def v_def)
  from cloneDisplayParts_heap_ok [OF wf closed_above_start [OF wf] le_refl s]
  obtain s' h1 where r1: "cloneDisplayParts_heap s h = Inr (s', h1)" "extends h h1"
      "closed_above ?n h1" "?n \<le> s'" "isPartsArray h1 s'" "partsView h1 s' = partsView h s"
    by blast
  have wf1: "wf_heap h1" using extends_wf(1) [OF r1(2)] .
  have s1: "s' < fresh h1" using isPartsArray_below [OF wf1 r1(5)] .
  have b1: "store h1 b = Some (ArrayObj ts)" "list_all (isTag h1) ts"
    using extends_keeps [OF r1(2) b(1)] extends_isTags [OF r1(2) b(2)] by simp_all
  from cloneTags_ok [OF wf1 r1(3) extends_wf(2) [OF r1(2)] b1(2)]
  obtain ts' h2 where r2: "cloneTags ts h1 = Inr (ts', h2)" "extends h1 h2" "closed_above ?n h2"
      "list_all (\<lambda>t. fresh h1 \<le> t \<and> isTag h2 t) ts'"
      "map (tagView h2) ts' = map (\<lambda>t. clonedTagView (tagView h1 t)) ts"
    by blast
  from cloneTags_ok [OF wf1 closed_above_start [OF wf1] le_refl b1(2)] r2(1)
  have d2: "closed_above (fresh h1) h2"
    by auto
  have tags2: "list_all (isTag h2) ts'" and ge2: "\<forall>t\<in>set ts'. fresh h1 \<le> t"
    using r2(4) by (auto simp: list_all_iff)
  have e02: "extends h h2" using extends_trans [OF r1(2) r2(2)] .
  obtain b' h3 where a3: "alloc (ArrayObj ts') h2 = (b', h3)"
    by (cases "alloc (ArrayObj ts') h2")
  note e3 = alloc_extends [OF extends_wf(1) [OF r2(2)] a3]
  have "\<forall>r\<in>set (ownedRefs (ArrayObj ts')). ?n \<le> r"
    using r2(4) extends_wf(2) [OF r1(2)] by (fastforce simp: list_all_iff)
  then have c3: "closed_above ?n h3"
    by (rule alloc_closed [OF r2(3) a3])
  have d3: "closed_above (fresh h1) h3"
    using alloc_closed [OF d2 a3] ge2 by simp
  have e03: "extends h h3" using extends_trans [OF e02 e3(1)] .
  have m3: "store h3 m = Some (SetObj ms)"
    using extends_keeps [OF e03 m] .
  obtain m' h4 where a4: "alloc (SetObj ms) h3 = (m', h4)"
    by (cases "alloc (SetObj ms) h3")
  note e4 = alloc_extends [OF extends_wf(1) [OF e3(1)] a4]
  have c4: "closed_above ?n h4"
    using alloc_closed [OF c3 a4] by simp
  have d4: "closed_above (fresh h1) h4"
    using alloc_closed [OF d3 a4] by simp
  have wf4: "wf_heap h4" using extends_wf(1) [OF e4(1)] .
  have e24: "extends h2 h4" using extends_trans [OF e3(1) e4(1)] .
  have e04: "extends h h4" using extends_trans [OF e03 e4(1)] .
  define w :: "'a cell" where "w = CommentObj s' b' m' None None None"
  obtain c h5 where a5: "alloc w h4 = (c, h5)"
    by (cases "alloc w h4")
  note e5 = alloc_extends [OF wf4 a5]
  have ge: "?n \<le> b'" "?n \<le> m'" "?n \<le> c"
    using e3(2) e4(2) e5(2) extends_wf(2) [OF e02] extends_wf(2) [OF e03] extends_wf(2) [OF e04]
    by simp_all
  have c5: "closed_above ?n h5"
    using alloc_closed [OF c4 a5] r1(4) ge by (simp add: w_def)
  have e05: "extends h h5" using extends_trans [OF e04 e5(1)] .
  have e15: "extends h1 h5"
    using extends_trans [OF r2(2) extends_trans [OF e24 e5(1)]] .
  have s5: "isPartsArray h5 s'"
    using extends_isPartsArray [OF e15 r1(5)] .
  have cell5: "store h5 c = Some (CommentObj s' b' m' None None None)"
    using e5(4) by (simp add: w_def)
  let ?ps = "partsView h s"
  let ?i = "findIndex isLabelPart ?ps"
  have pv5: "partsView h5 s' = ?ps"
    using extends_partsView [OF e15 r1(5)] r1(6) by simp
  from extractLabelTag_heap_ok [OF extends_wf(1) [OF e5(1)] c5 ge(3) cell5 s5]
  obtain h6 lbl' where r6: "extractLabelTag_heap c h5 = Inr h6" "wf_heap h6" "fresh h6 = fresh h5"
      "closed_above ?n h6" "\<forall>r. r \<noteq> s' \<longrightarrow> r \<noteq> c \<longrightarrow> store h6 r = store h5 r"
      "store h6 c = Some (CommentObj s' b' m' lbl' None None)" "isPartsArray h6 s'"
      "partsView h6 s' = (if ?i \<noteq> - 1 then take (nat ?i) ?ps @ drop (nat ?i + 1) ?ps else ?ps)"
      "lbl' = (if ?i \<noteq> - 1 then partText (?ps ! nat ?i) else None)"
    unfolding pv5 by blast
  define h7 where "h7 = assign c (CommentObj s' b' m' lbl' sp did) h6"
  have res: "Comment_clone x h = Inr (c, h7)"
    using cell r1(1) b1(1) r2(1) a3 m3 a4 a5 r6(1,6)
    by (simp add: Comment_clone_def w_def h7_def)
  have below: "\<forall>r<?n. store h6 r = store h5 r"
    using r6(5) r1(4) ge(3) by auto
  have "closed_above ?n h7"
    unfolding h7_def using r6(4) r1(4) ge by (simp add: assign_closed)
  moreover have "\<forall>r<?n. store h7 r = store h r"
    unfolding h7_def using below extends_same [OF e05] ge(3) by (simp add: assign_below)
  ultimately have ind: "independent_copy h c h7"
    using independent_copyI [OF wf _ _ ge(3)] by blast
  have cell7: "store h7 c = Some (CommentObj s' b' m' lbl' sp did)"
    by (simp add: h7_def assign_at)
  have other7: "store h7 r = store h6 r" if "r \<noteq> c" for r
    using that by (simp add: h7_def assign_other)
  have agree: "\<forall>r. fresh h1 \<le> r \<longrightarrow> r < fresh h4 \<longrightarrow> store h7 r = store h4 r"
  proof (intro allI impI)
    fix r assume r: "fresh h1 \<le> r" "r < fresh h4"
    then have "r \<noteq> c" "r \<noteq> s'"
      using e5(2) s1 by simp_all
    then have "store h7 r = store h5 r"
      using other7 r6(5) by simp
    then show "store h7 r = store h4 r"
      using extends_same [OF e5(1)] r(2) by simp
  qed
  have sc: "s' \<noteq> c"
    using cell5 s5 by (auto simp: isPartsArray_iff)
  obtain qs where qs: "store h6 s' = Some (ArrayObj qs)" "list_all (isPart h6) qs"
    using r6(7) by (auto simp: isPartsArray_iff)
  have "\<forall>p\<in>set qs. store h7 p = store h6 p"
  proof
    fix p assume "p \<in> set qs"
    then have "isPart h6 p"
      using qs(2) by (simp add: list_all_iff)
    then have "p \<noteq> c"
      using r6(6) by (auto simp: isPart_iff)
    then show "store h7 p = store h6 p"
      by (rule other7)
  qed
  note sum7 = partsView_cong [OF qs other7 [OF sc] this]
  have b4: "store h4 b' = Some (ArrayObj ts')" "store h4 m' = Some (SetObj ms)"
    using extends_keeps [OF e4(1) e3(4)] e4(4) by simp_all
  have rng: "fresh h1 \<le> b'" "b' < fresh h4" "fresh h1 \<le> m'" "m' < fresh h4"
    using e3(2,3) e4(2,3) extends_wf(2) [OF r2(2)] by simp_all
  have b7: "store h7 b' = Some (ArrayObj ts')" "store h7 m' = Some (SetObj ms)"
    using agree rng b4 by simp_all
  have tags4: "list_all (isTag h4) ts'"
    using extends_isTags [OF e24 tags2] .
  have t7: "tagView h7 t = tagView h4 t \<and> isTag h7 t" if "t \<in> set ts'" for t
  proof -
    have "isTag h4 t" "fresh h1 \<le> t"
      using tags4 ge2 that by (simp_all add: list_all_iff)
    then show ?thesis
      using tagView_agree [OF _ d4 _ wf4 agree] by blast
  qed
  have tags7: "list_all (isTag h7) ts'"
    using t7 by (simp add: list_all_iff)
  have "map (tagView h7) ts' = map (tagView h4) ts'"
    using t7 by simp
  also have "\<dots> = map (tagView h2) ts'"
    using extends_tagViews [OF e24 tags2] .
  also have "\<dots> = map (\<lambda>t. clonedTagView (tagView h1 t)) ts"
    using r2(5) .
  also have "\<dots> = map clonedTagView (map (tagView h) ts)"
    using extends_tagViews [OF r1(2) b(2)] by (simp add: comp_def)
  finally have tv7: "map (tagView h7) ts' = map clonedTagView (map (tagView h) ts)" .
  have isc: "isComment h7 c"
    using cell7 sum7(2) b7 tags7 by (simp add: isComment_iff)
  have "commentView h7 c = Some (clonedView v)"
    using cell7 b7 tv7 sum7(1) r6(8,9)
    by (simp add: commentView_def clonedView_def v_def Let_def)
  then show ?thesis
    using res ind isc view by blast
qed

lemma Type_clone_ok:
  assumes "wf_heap h" "closed_above n h" "n \<le> fresh h" "typeAt h a t" "height t < fuel"
  shows "\<exists>a' h'. Type_clone fuel a h = Some (Inr (a', h')) \<and> extends h h' \<and>
           closed_above n h' \<and> fresh h \<le> a' \<and> typeAt h' a' t"
  using assms
proof (induction t arbitrary: fuel a h)
  case (OtherType x)
  obtain k where fuel: "fuel = Suc k"
    using OtherType.prems(5) by (cases fuel) auto
  obtain a' h' where al: "alloc (OtherTypeObj x) h = (a', h')"
    by (cases "alloc (OtherTypeObj x) h")
  note e = alloc_extends [OF OtherType.prems(1) al]
  have "closed_above n h'"
    using alloc_closed [OF OtherType.prems(2) al] by simp
  then show ?case
    using OtherType.prems(4) al e by (simp add: fuel OtherType_clone_def)
next
  case (IndexedAccessType ob ix)
  obtain k where fuel: "fuel = Suc k" and hk: "height ob < k" "height ix < k"
    using IndexedAccessType.prems(5) by (cases fuel) auto
  obtain o_ref i_ref where cell: "store h a = Some (IndexedAccessTypeObj o_ref i_ref)"
      and sub: "typeAt h o_ref ob" "typeAt h i_ref ix"
    using IndexedAccessType.prems(4) by (auto split: option.splits cell.splits)
  from IndexedAccessType.IH(1) [OF IndexedAccessType.prems(1,2,3) sub(1) hk(1)]
  obtain ob' h1 where r1: "Type_clone k o_ref h = Some (Inr (ob', h1))" "extends h h1"
      "closed_above n h1" "fresh h \<le> ob'" "typeAt h1 ob' ob"
    by blast
  have n1: "n \<le> fresh h1"
    using IndexedAccessType.prems(3) extends_wf(2) [OF r1(2)] by simp
  from IndexedAccessType.IH(2) [OF extends_wf(1) [OF r1(2)] r1(3) n1
      extends_typeAt [OF r1(2) sub(2)] hk(2)]
  obtain ix' h2 where r2: "Type_clone k i_ref h1 = Some (Inr (ix', h2))" "extends h1 h2"
      "closed_above n h2" "fresh h1 \<le> ix'" "typeAt h2 ix' ix"
    by blast
  obtain a' h' where al: "alloc (IndexedAccessTypeObj ob' ix') h2 = (a', h')"
    by (cases "alloc (IndexedAccessTypeObj ob' ix') h2")
  note e = alloc_extends [OF extends_wf(1) [OF r2(2)] al]
  have ge: "n \<le> ob'" "n \<le> ix'"
    using r1(4) r2(4) IndexedAccessType.prems(3) n1 by simp_all
  have "closed_above n h'"
    using alloc_closed [OF r2(3) al] ge by simp
  moreover have "typeAt h' a' (IndexedAccessType ob ix)"
    using e(4) extends_typeAt [OF extends_trans [OF r2(2) e(1)] r1(5)]
      extends_typeAt [OF e(1) r2(5)] by simp
  moreover have "fresh h \<le> a'"
    using e(2) extends_wf(2) [OF r1(2)] extends_wf(2) [OF r2(2)] by simp
  ultimately show ?case
    using cell r1(1) r2(1) al extends_trans [OF r1(2) extends_trans [OF r2(2) e(1)]]
    by (simp add: fuel)
qed

text \<open>
  Claim C8: \<^verbatim>\<open>clone()\<close> of a comment and of an indexed access type, in any store whose objects
  were all created by \<^verbatim>\<open>alloc\<close>. The call returns a new object, not identical to its source;
  the object returned is a comment with its summary array, its array of tags and its set
  (for the type, an object that holds the same type expression as the source), and it holds
  what \<^verbatim>\<open>clonedView\<close> makes of the content of the source. Everything reachable through the
  clone by ownership (the summary array and its parts, the array of block tags, the tags,
  their content arrays and parts, the set of modifier tags; the child types) is a new
  object as well, so an assignment to any of them changes no object that existed before the
  call, the source's included, and an assignment to the source or to any object that
  existed before changes none of them. The reflections and symbol identifiers that parts
  target are not owned: a part and its copy refer to the same one.
\<close>

theorem clone_independent:
  assumes "wf_heap h"
  shows "(isComment h x \<longrightarrow>
           (\<exists>x' h' v. Comment_clone x h = Inr (x', h') \<and> x' \<noteq> x \<and> isComment h' x' \<and>
              commentView h x = Some v \<and> commentView h' x' = Some (clonedView v) \<and>
              independent_copy h x' h')) \<and>
         (typeAt h x (IndexedAccessType ob ix) \<longrightarrow>
           (\<exists>x' h'. Type_clone (Suc (height (IndexedAccessType ob ix))) x h =
                       Some (Inr (x', h')) \<and>
              x' \<noteq> x \<and> typeAt h' x' (IndexedAccessType ob ix) \<and> independent_copy h x' h'))"
proof (intro conjI impI)
  assume c: "isComment h x"
  then have "x \<in> dom (store h)"
    by (auto simp: isComment_iff)
  moreover from Comment_clone_ok [OF assms c]
  obtain x' h' v where r: "Comment_clone x h = Inr (x', h')" "independent_copy h x' h'"
      "isComment h' x'" "commentView h x = Some v" "commentView h' x' = Some (clonedView v)"
    by blast
  ultimately have "x' \<noteq> x"
    by (auto simp: independent_copy_def)
  then show "\<exists>x' h' v. Comment_clone x h = Inr (x', h') \<and> x' \<noteq> x \<and> isComment h' x' \<and>
              commentView h x = Some v \<and> commentView h' x' = Some (clonedView v) \<and>
              independent_copy h x' h'"
    using r by blast
next
  let ?t = "IndexedAccessType ob ix"
  assume t: "typeAt h x ?t"
  then have x: "x \<in> dom (store h)"
    by (auto split: option.splits)
  from Type_clone_ok [OF assms closed_above_start [OF assms] le_refl t, of "Suc (height ?t)"]
  obtain x' h' where r: "Type_clone (Suc (height ?t)) x h = Some (Inr (x', h'))" "extends h h'"
      "closed_above (fresh h) h'" "fresh h \<le> x'" "typeAt h' x' ?t"
    by blast
  have i: "independent_copy h x' h'"
    using independent_copyI [OF assms extends_same [OF r(2)] r(3,4)] .
  then have "x' \<noteq> x"
    using x by (auto simp: independent_copy_def)
  then show "\<exists>x' h'. Type_clone (Suc (height ?t)) x h = Some (Inr (x', h')) \<and>
              x' \<noteq> x \<and> typeAt h' x' ?t \<and> independent_copy h x' h'"
    using r i by blast
qed

theorem clone_independent_witness:
  "(let h = \<lparr>store = [0 \<mapsto> PartObj ''text'' ''See '' None Undefined None,
                      1 \<mapsto> PartObj ''inline-tag'' ''A'' (Some ''@link'') (Ref 9) None,
                      2 \<mapsto> ArrayObj [0, 13, 1],
                      3 \<mapsto> PartObj ''text'' ''x'' None Undefined None,
                      4 \<mapsto> ArrayObj [3],
                      5 \<mapsto> CommentTagObj ''@param'' (Some ''n'') 4,
                      6 \<mapsto> ArrayObj [5],
                      7 \<mapsto> SetObj [''@beta''],
                      8 \<mapsto> CommentObj 2 6 7 (Some ''L'') (Some ''/a.ts'') (Some 3),
                      9 \<mapsto> ReflectionObj \<lparr>refl_id = 7, refl_kind = 128, refl_fullName = ''A''\<rparr>,
                      10 \<mapsto> OtherTypeObj ''T'',
                      11 \<mapsto> OtherTypeObj ''K'',
                      12 \<mapsto> IndexedAccessTypeObj 10 11,
                      13 \<mapsto> PartObj ''inline-tag'' ''M'' (Some ''@label'') Undefined None],
              fresh = 14\<rparr>
    in wf_heap h \<and> isComment h 8 \<and>
       (\<exists>x' h'. Comment_clone 8 h = Inr (x', h') \<and> x' \<noteq> 8 \<and> isComment h' x' \<and>
          commentView h' x' =
            Some \<lparr>view_summary =
                    [Some (PartObj ''text'' ''See '' None Undefined None),
                     Some (PartObj ''inline-tag'' ''A'' (Some ''@link'') (Ref 9) None)],
                  view_blockTags =
                    [(''@param'', Some ''n'', [Some (PartObj ''text'' ''x'' None Undefined None)])],
                  view_modifierTags = [''@beta''],
                  view_label = Some ''M'',
                  view_sourcePath = Some ''/a.ts'',
                  view_discoveryId = Some 3\<rparr> \<and>
          independent_copy h x' h') \<and>
       typeAt h 12 (IndexedAccessType (OtherType ''T'') (OtherType ''K'')) \<and>
       (\<exists>x' h'. Type_clone 2 12 h = Some (Inr (x', h')) \<and> x' \<noteq> 12 \<and>
          typeAt h' x' (IndexedAccessType (OtherType ''T'') (OtherType ''K'')) \<and>
          independent_copy h x' h'))"
proof -
  let ?h = "\<lparr>store = [0 \<mapsto> PartObj ''text'' ''See '' None Undefined None,
                      1 \<mapsto> PartObj ''inline-tag'' ''A'' (Some ''@link'') (Ref 9) None,
                      2 \<mapsto> ArrayObj [0, 13, 1],
                      3 \<mapsto> PartObj ''text'' ''x'' None Undefined None,
                      4 \<mapsto> ArrayObj [3],
                      5 \<mapsto> CommentTagObj ''@param'' (Some ''n'') 4,
                      6 \<mapsto> ArrayObj [5],
                      7 \<mapsto> SetObj [''@beta''],
                      8 \<mapsto> CommentObj 2 6 7 (Some ''L'') (Some ''/a.ts'') (Some 3),
                      9 \<mapsto> ReflectionObj \<lparr>refl_id = 7, refl_kind = 128, refl_fullName = ''A''\<rparr>,
                      10 \<mapsto> OtherTypeObj ''T'',
                      11 \<mapsto> OtherTypeObj ''K'',
                      12 \<mapsto> IndexedAccessTypeObj 10 11,
                      13 \<mapsto> PartObj ''inline-tag'' ''M'' (Some ''@label'') Undefined None],
              fresh = 14\<rparr> :: string heap"
  let ?v = "\<lparr>view_summary =
               [Some (PartObj ''text'' ''See '' None Undefined None),
                Some (PartObj ''inline-tag'' ''A'' (Some ''@link'') (Ref 9) None)],
             view_blockTags =
               [(''@param'', Some ''n'', [Some (PartObj ''text'' ''x'' None Undefined None)])],
             view_modifierTags = [''@beta''],
             view_label = Some ''M'',
             view_sourcePath = Some ''/a.ts'',
             view_discoveryId = Some 3\<rparr> :: string comment_view"
  have wf: "wf_heap ?h"
    by (auto simp: wf_heap_def split: if_splits)
  have c: "isComment ?h 8"
    by (simp add: isComment_def isPartsArray_def isTag_def isPart_def)
  have t: "typeAt ?h 12 (IndexedAccessType (OtherType ''T'') (OtherType ''K''))"
    by simp
  have hgt: "Suc (height (IndexedAccessType (OtherType ''T'') (OtherType ''K'') :: string Type)) = 2"
    by simp
  have cv: "map_option clonedView (commentView ?h 8) = Some ?v"
    by (simp add: commentView_def partsView_def tagView_def clonedView_def clonedTagView_def)
  from clone_independent [OF wf, of 8] c
  obtain x' h' v where r: "Comment_clone 8 ?h = Inr (x', h')" "x' \<noteq> 8" "isComment h' x'"
      "commentView ?h 8 = Some v" "commentView h' x' = Some (clonedView v)"
      "independent_copy ?h x' h'"
    by blast
  have "commentView h' x' = Some ?v"
    using cv r(4,5) by simp
  then have a: "\<exists>x' h'. Comment_clone 8 ?h = Inr (x', h') \<and> x' \<noteq> 8 \<and> isComment h' x' \<and>
      commentView h' x' = Some ?v \<and> independent_copy ?h x' h'"
    using r by blast
  from clone_independent [OF wf, of 12 "OtherType ''T''" "OtherType ''K''"] t
  have b: "\<exists>x' h'. Type_clone 2 12 ?h = Some (Inr (x', h')) \<and> x' \<noteq> 12 \<and>
          typeAt h' x' (IndexedAccessType (OtherType ''T'') (OtherType ''K'')) \<and>
          independent_copy ?h x' h'"
    unfolding hgt by blast
  show ?thesis
    unfolding Let_def using wf c t a b by blast
qed

end
